theory Spec2Isabelle
  imports Complex_Main "HOL-Library.Multiset" "HOL-Library.Product_Lexorder"
    "HOL-Library.List_Lexorder"
begin

section \<open>Python strings\<close>

text \<open>
  A Python \<open>str\<close> is a sequence of Unicode code points; a code point is a natural
  number and a string is a list of them. Literals of the source are written by their
  code points: \<open>0x20\<close> is the space, \<open>0x2D\<close> the hyphen-minus, \<open>0x2212\<close> the
  minus sign, \<open>0x30FC\<close> the katakana-hiragana prolonged sound mark, \<open>0x3042\<close> and
  \<open>0x3093\<close> the hiragana letters A and N, \<open>0x30\<close> to \<open>0x39\<close> the digits 0 to 9.
\<close>

type_synonym ustring = "nat list"

definition in_ranges :: "(nat \<times> nat) list \<Rightarrow> nat \<Rightarrow> bool" where
  "in_ranges rs c = list_ex (\<lambda>(a, b). a \<le> c \<and> c \<le> b) rs"

text \<open>
  The characters for which \<open>str.isspace\<close> holds; \<open>str.split\<close>, \<open>str.strip\<close> and the
  class \<open>\s\<close> of \<open>re\<close> (on \<open>str\<close> patterns) all use this set.
\<close>

definition space_ranges :: "(nat \<times> nat) list" where
  "space_ranges =
    [(0x9, 0xD), (0x1C, 0x20), (0x85, 0x85), (0xA0, 0xA0), (0x1680, 0x1680),
     (0x2000, 0x200A), (0x2028, 0x2029), (0x202F, 0x202F), (0x205F, 0x205F),
     (0x3000, 0x3000)]"

definition is_space :: "nat \<Rightarrow> bool" where
  "is_space c = in_ranges space_ranges c"

text \<open>
  The class \<open>\d\<close> of \<open>re\<close> on \<open>str\<close> patterns: the characters of Unicode category Nd
  (decimal digits of every script), here as of Unicode 14.0 (CPython 3.11).
\<close>

definition digit_ranges :: "(nat \<times> nat) list" where
  "digit_ranges =
    [(0x30, 0x39), (0x660, 0x669), (0x6F0, 0x6F9), (0x7C0, 0x7C9), (0x966, 0x96F),
     (0x9E6, 0x9EF), (0xA66, 0xA6F), (0xAE6, 0xAEF), (0xB66, 0xB6F), (0xBE6, 0xBEF),
     (0xC66, 0xC6F), (0xCE6, 0xCEF), (0xD66, 0xD6F), (0xDE6, 0xDEF), (0xE50, 0xE59),
     (0xED0, 0xED9), (0xF20, 0xF29), (0x1040, 0x1049), (0x1090, 0x1099), (0x17E0, 0x17E9),
     (0x1810, 0x1819), (0x1946, 0x194F), (0x19D0, 0x19D9), (0x1A80, 0x1A89),
     (0x1A90, 0x1A99), (0x1B50, 0x1B59), (0x1BB0, 0x1BB9), (0x1C40, 0x1C49),
     (0x1C50, 0x1C59), (0xA620, 0xA629), (0xA8D0, 0xA8D9), (0xA900, 0xA909),
     (0xA9D0, 0xA9D9), (0xA9F0, 0xA9F9), (0xAA50, 0xAA59), (0xABF0, 0xABF9),
     (0xFF10, 0xFF19), (0x104A0, 0x104A9), (0x10D30, 0x10D39), (0x11066, 0x1106F),
     (0x110F0, 0x110F9), (0x11136, 0x1113F), (0x111D0, 0x111D9), (0x112F0, 0x112F9),
     (0x11450, 0x11459), (0x114D0, 0x114D9), (0x11650, 0x11659), (0x116C0, 0x116C9),
     (0x11730, 0x11739), (0x118E0, 0x118E9), (0x11950, 0x11959), (0x11C50, 0x11C59),
     (0x11D50, 0x11D59), (0x11DA0, 0x11DA9), (0x16A60, 0x16A69), (0x16AC0, 0x16AC9),
     (0x16B50, 0x16B59), (0x1D7CE, 0x1D7FF), (0x1E140, 0x1E149), (0x1E2F0, 0x1E2F9),
     (0x1E950, 0x1E959), (0x1FBF0, 0x1FBF9)]"

definition is_digit :: "nat \<Rightarrow> bool" where
  "is_digit c = in_ranges digit_ranges c"

text \<open>\<open>s.replace(a, b)\<close> for one-character strings \<open>a\<close> and \<open>b\<close>.\<close>

definition py_replace :: "nat \<Rightarrow> nat \<Rightarrow> ustring \<Rightarrow> ustring" where
  "py_replace a b s = map (\<lambda>c. if c = a then b else c) s"

text \<open>\<open>s.split()\<close>: the maximal runs of characters that are not whitespace.\<close>

function py_split :: "ustring \<Rightarrow> ustring list" where
  "py_split s =
     (let r = dropWhile is_space s in
      if r = [] then []
      else takeWhile (\<lambda>c. \<not> is_space c) r # py_split (dropWhile (\<lambda>c. \<not> is_space c) r))"
  by pat_completeness auto
termination
proof (relation "measure length")
  fix s r :: ustring
  assume r: "r = dropWhile is_space s" and ne: "r \<noteq> []"
  from ne obtain c cs where rc: "r = c # cs" by (cases r) auto
  from ne r have "\<not> is_space (hd r)"
    using hd_dropWhile by metis
  with rc have "dropWhile (\<lambda>c. \<not> is_space c) r = dropWhile (\<lambda>c. \<not> is_space c) cs"
    by simp
  moreover have "length (dropWhile (\<lambda>c. \<not> is_space c) cs) \<le> length cs"
    by (rule length_dropWhile_le)
  moreover from rc have "length cs < length r" by simp
  moreover from r have "length r \<le> length s" by (simp add: length_dropWhile_le)
  ultimately show "(dropWhile (\<lambda>c. \<not> is_space c) r, s) \<in> measure length" by simp
qed simp

declare py_split.simps [simp del]

text \<open>\<open>sep.join(xs)\<close>.\<close>

fun py_join :: "ustring \<Rightarrow> ustring list \<Rightarrow> ustring" where
  "py_join sep [] = []"
| "py_join sep [x] = x"
| "py_join sep (x # y # ys) = x @ sep @ py_join sep (y # ys)"

text \<open>\<open>re.sub(r'\s+', ' ', s)\<close>: every maximal run of whitespace becomes one space.\<close>

function re_sub_ws :: "ustring \<Rightarrow> ustring" where
  "re_sub_ws [] = []"
| "re_sub_ws (c # cs) =
     (if is_space c then 0x20 # re_sub_ws (dropWhile is_space cs) else c # re_sub_ws cs)"
  by pat_completeness auto
termination
  by (relation "measure length") (auto simp: less_Suc_eq_le length_dropWhile_le)

text \<open>\<open>s.strip()\<close>: leading and trailing whitespace removed.\<close>

definition py_lstrip :: "ustring \<Rightarrow> ustring" where
  "py_lstrip s = dropWhile is_space s"

definition py_rstrip :: "ustring \<Rightarrow> ustring" where
  "py_rstrip s = rev (dropWhile is_space (rev s))"

definition py_strip :: "ustring \<Rightarrow> ustring" where
  "py_strip s = py_rstrip (py_lstrip s)"

text \<open>\<open>r in s\<close> on strings: \<open>r\<close> occurs in \<open>s\<close> as a contiguous substring.\<close>

definition starts_with :: "ustring \<Rightarrow> ustring \<Rightarrow> bool" where
  "starts_with s r = (take (length r) s = r)"

fun py_in :: "ustring \<Rightarrow> ustring \<Rightarrow> bool" where
  "py_in r [] = (r = [])"
| "py_in r (c # cs) = (starts_with (c # cs) r \<or> py_in r cs)"


definition is_surrogate :: "nat \<Rightarrow> bool" where
  "is_surrogate c = (0xD800 \<le> c \<and> c \<le> 0xDFFF)"


section \<open>The fragment of Python's \<open>re\<close> that the parsers use\<close>

text \<open>
  Every pattern of the source is a sequence of character classes, each with a greedy
  bounded repetition \<open>{lo,hi}\<close> (\<open>*\<close> is \<open>{0,}\<close>, \<open>?\<close> is \<open>{0,1}\<close>, no quantifier is
  \<open>{1,1}\<close>), inside or outside a capturing group; groups are not nested. A piece carries
  its class, its bounds and the number of the group it lies in (0: in no group).
\<close>

datatype piece = Piece (cls: "nat \<Rightarrow> bool") (lo: nat) (hi: "nat option") (grp: nat)

text \<open>The most repetitions of a piece that the input allows at its front.\<close>

definition reach :: "piece \<Rightarrow> ustring \<Rightarrow> nat" where
  "reach p s = length (takeWhile (cls p) (case hi p of None \<Rightarrow> s | Some h \<Rightarrow> take h s))"

text \<open>
  The backtracking matcher, anchored at the front of \<open>s\<close>: a greedy piece first takes as
  many characters as it can (\<open>reach\<close>) and gives them back one at a time, down to \<open>lo\<close>,
  until the rest of the pattern matches (\<open>rx_back\<close>, at \<open>k\<close> characters taken). The
  result lists what each piece consumed.
\<close>

fun rx_match :: "piece list \<Rightarrow> ustring \<Rightarrow> ustring list option"
  and rx_back :: "piece \<Rightarrow> piece list \<Rightarrow> ustring \<Rightarrow> nat \<Rightarrow> ustring list option" where
  "rx_match [] s = Some []"
| "rx_match (p # ps) s = (if reach p s < lo p then None else rx_back p ps s (reach p s))"
| "rx_back p ps s k =
     (case rx_match ps (drop k s) of
        Some r \<Rightarrow> Some (take k s # r)
      | None \<Rightarrow> if k \<le> lo p then None else rx_back p ps s (k - 1))"

text \<open>
  \<open>re.search\<close>: the match at the leftmost start position that has one; the last start
  position tried is the end of the string.
\<close>

fun re_search :: "piece list \<Rightarrow> ustring \<Rightarrow> ustring list option" where
  "re_search pat [] = rx_match pat []"
| "re_search pat (c # cs) =
     (case rx_match pat (c # cs) of
        Some m \<Rightarrow> Some m
      | None \<Rightarrow> re_search pat cs)"

text \<open>\<open>match.group(g)\<close>: what the pieces of group \<open>g\<close> consumed.\<close>

definition match_group :: "piece list \<Rightarrow> ustring list \<Rightarrow> nat \<Rightarrow> ustring" where
  "match_group pat m g = concat (map snd (filter (\<lambda>(p, x). grp p = g) (zip pat m)))"

subsection \<open>The character classes of the patterns\<close>

definition not_digit_space :: "nat \<Rightarrow> bool" where
  "not_digit_space c = (\<not> is_digit c \<and> \<not> is_space c)"

definition hira_range :: "nat \<Rightarrow> bool" where
  "hira_range c = (0x3042 \<le> c \<and> c \<le> 0x3093)"

definition sep2 :: "nat \<Rightarrow> bool" where
  "sep2 c = (c = 0x2D \<or> c = 0x2212)"

definition sep3 :: "nat \<Rightarrow> bool" where
  "sep3 c = (c = 0x2D \<or> c = 0x2212 \<or> c = 0x30FC)"

section \<open>The plate record\<close>

text \<open>The parsers return a Python dict from key strings to strings.\<close>

type_synonym plate = "string \<rightharpoonup> ustring"

definition init_result :: "ustring \<Rightarrow> plate" where
  "init_result clean_text =
     [''region'' \<mapsto> [], ''classification'' \<mapsto> [], ''hiragana'' \<mapsto> [], ''number'' \<mapsto> [],
      ''full_text'' \<mapsto> clean_text]"

text \<open>The loop \<open>for region in regions: if region in clean_text: ...; break\<close>.\<close>

fun region_loop :: "ustring list \<Rightarrow> ustring \<Rightarrow> plate \<Rightarrow> plate" where
  "region_loop [] clean_text result = result"
| "region_loop (region # rest) clean_text result =
     (if py_in region clean_text then result(''region'' \<mapsto> region)
      else region_loop rest clean_text result)"

section \<open>\<open>src/backend/app.py\<close>\<close>

definition app_clean :: "ustring \<Rightarrow> ustring" where
  "app_clean text = py_strip (re_sub_ws (py_replace 0xD 0x20 (py_replace 0xA 0x20 text)))"

definition app_regions :: "ustring list" where
  "app_regions =
    [[0x54C1, 0x5DDD], [0x7DF4, 0x99AC], [0x8DB3, 0x7ACB], [0x6749, 0x4E26],
     [0x4E16, 0x7530, 0x8C37], [0x6C5F, 0x6771], [0x845B, 0x98FE],
     [0x6C5F, 0x6238, 0x5DDD], [0x677F, 0x6A4B], [0x53F0, 0x6771], [0x58A8, 0x7530],
     [0x8352, 0x5DDD], [0x5317], [0x8C4A, 0x5CF6], [0x4E2D, 0x91CE], [0x76EE, 0x9ED2],
     [0x5927, 0x7530], [0x6E2F], [0x5343, 0x4EE3, 0x7530], [0x4E2D, 0x592E],
     [0x6587, 0x4EAC], [0x65B0, 0x5BBF], [0x6E0B, 0x8C37], [0x6A2A, 0x6D5C],
     [0x5DDD, 0x5D0E], [0x76F8, 0x6A21], [0x6E58, 0x5357], [0x5343, 0x8449],
     [0x7FD2, 0x5FD7, 0x91CE], [0x8896, 0x30B1, 0x6D66], [0x91CE, 0x7530],
     [0x6C34, 0x6238], [0x571F, 0x6D66], [0x3064, 0x304F, 0x3070],
     [0x5B87, 0x90FD, 0x5BAE], [0x3068, 0x3061, 0x304E], [0x90A3, 0x9808],
     [0x524D, 0x6A4B], [0x9AD8, 0x5D0E], [0x5927, 0x962A], [0x306A, 0x306B, 0x308F],
     [0x548C, 0x6CC9], [0x583A], [0x795E, 0x6238], [0x59EB, 0x8DEF], [0x4EAC, 0x90FD],
     [0x5948, 0x826F], [0x6ECB, 0x8CC0], [0x540D, 0x53E4, 0x5C4B],
     [0x5C3E, 0x5F35, 0x5C0F, 0x7267], [0x4E00, 0x5BAE], [0x6625, 0x65E5, 0x4E95],
     [0x8C4A, 0x7530], [0x5CA1, 0x5D0E], [0x8C4A, 0x6A4B], [0x9759, 0x5CA1],
     [0x6D5C, 0x677E], [0x91D1, 0x6CA2], [0x5BCC, 0x5C71], [0x798F, 0x4E95],
     [0x9577, 0x91CE], [0x677E, 0x672C], [0x8ACF, 0x8A2A], [0x5C71, 0x68A8],
     [0x7532, 0x5E9C], [0x672D, 0x5E4C], [0x51FD, 0x9928], [0x65ED, 0x5DDD],
     [0x91E7, 0x8DEF], [0x5E2F, 0x5E83], [0x4ED9, 0x53F0], [0x5BAE, 0x57CE],
     [0x798F, 0x5CF6], [0x90E1, 0x5C71], [0x3044, 0x308F, 0x304D], [0x65B0, 0x6F5F],
     [0x9577, 0x5CA1], [0x798F, 0x5CA1], [0x5317, 0x4E5D, 0x5DDE], [0x7B51, 0x8C4A],
     [0x4E45, 0x7559, 0x7C73], [0x4F50, 0x8CC0], [0x9577, 0x5D0E], [0x718A, 0x672C],
     [0x5927, 0x5206], [0x5BAE, 0x5D0E], [0x9E7F, 0x5150, 0x5CF6], [0x6C96, 0x7E04],
     [0x5E83, 0x5CF6], [0x798F, 0x5C71], [0x5CA1, 0x5C71], [0x5009, 0x6577],
     [0x5C71, 0x53E3], [0x4E0B, 0x95A2], [0x9CE5, 0x53D6], [0x5CF6, 0x6839],
     [0x677E, 0x6C5F], [0x5FB3, 0x5CF6], [0x9999, 0x5DDD], [0x9AD8, 0x77E5],
     [0x611B, 0x5A9B], [0x677E, 0x5C71]]"

definition app_pattern1 :: "piece list" where
  "app_pattern1 =
    [Piece not_digit_space 1 (Some 5) 1, Piece is_space 0 None 0,
     Piece is_digit 3 (Some 3) 2, Piece is_space 0 None 0,
     Piece hira_range 1 (Some 1) 3, Piece is_space 0 None 0,
     Piece is_digit 1 (Some 2) 4, Piece sep3 1 (Some 1) 4, Piece is_digit 2 (Some 2) 4]"

definition app_pattern2 :: "piece list" where
  "app_pattern2 =
    [Piece not_digit_space 1 (Some 5) 1, Piece is_space 0 None 0,
     Piece is_digit 3 (Some 3) 2, Piece is_space 0 None 0,
     Piece hira_range 1 (Some 1) 3, Piece is_space 0 None 0,
     Piece is_digit 4 (Some 4) 4]"

definition app_hiragana_pattern :: "piece list" where
  "app_hiragana_pattern = [Piece hira_range 1 (Some 1) 1]"

definition app_number_patterns :: "piece list list" where
  "app_number_patterns =
    [[Piece is_digit 1 (Some 2) 1, Piece sep3 1 (Some 1) 1, Piece is_digit 2 (Some 2) 1],
     [Piece is_digit 4 (Some 4) 1],
     [Piece is_digit 3 (Some 3) 1]]"

text \<open>The loop \<open>for i, pattern in enumerate(number_patterns)\<close>, which breaks at the first match.\<close>

fun app_number_loop :: "(nat \<times> piece list) list \<Rightarrow> ustring \<Rightarrow> plate \<Rightarrow> plate" where
  "app_number_loop [] clean_text result = result"
| "app_number_loop ((i, pattern) # rest) clean_text result =
     (case re_search pattern clean_text of
        Some m \<Rightarrow>
          (let num = match_group pattern m 1 in
           if i = 0 then result(''number'' \<mapsto> num)
           else if i = 1 \<and> length num = 4 then
             result(''number'' \<mapsto> take 2 num @ [0x2D] @ drop 2 num)
           else if i = 2 \<and> length num = 3 then result(''classification'' \<mapsto> num)
           else result)
      | None \<Rightarrow> app_number_loop rest clean_text result)"

definition app_hiragana_step :: "ustring \<Rightarrow> plate \<Rightarrow> plate" where
  "app_hiragana_step clean_text result =
     (case re_search app_hiragana_pattern clean_text of
        Some m \<Rightarrow> result(''hiragana'' \<mapsto> match_group app_hiragana_pattern m 1)
      | None \<Rightarrow> result)"

text \<open>The partial matching that follows the two full patterns.\<close>

definition app_tier3 :: "ustring \<Rightarrow> plate \<Rightarrow> plate" where
  "app_tier3 clean_text result =
     app_number_loop (enumerate 0 app_number_patterns) clean_text
       (app_hiragana_step clean_text (region_loop app_regions clean_text result))"

text \<open>
  The record that \<open>parse_japanese_license_plate\<close> builds from the text and returns:
  the body of the function from the cleaning of the text on.
\<close>

definition app_parse_japanese_license_plate :: "ustring \<Rightarrow> plate" where
  "app_parse_japanese_license_plate text =
     (let clean_text = app_clean text;
          result = init_result clean_text
      in case re_search app_pattern1 clean_text of
           Some m \<Rightarrow>
             result(''region'' \<mapsto> match_group app_pattern1 m 1,
                    ''classification'' \<mapsto> match_group app_pattern1 m 2,
                    ''hiragana'' \<mapsto> match_group app_pattern1 m 3,
                    ''number'' \<mapsto> match_group app_pattern1 m 4)
         | None \<Rightarrow>
             (case re_search app_pattern2 clean_text of
                Some m \<Rightarrow>
                  (let number = match_group app_pattern2 m 4 in
                   result(''region'' \<mapsto> match_group app_pattern2 m 1,
                          ''classification'' \<mapsto> match_group app_pattern2 m 2,
                          ''hiragana'' \<mapsto> match_group app_pattern2 m 3,
                          ''number'' \<mapsto> take 2 number @ [0x2D] @ drop 2 number))
              | None \<Rightarrow> app_tier3 clean_text result))"


section \<open>\<open>src/api/ocr.py\<close>\<close>

definition ocr_clean :: "ustring \<Rightarrow> ustring" where
  "ocr_clean text = py_join [0x20] (py_split (py_replace 0xD 0x20 (py_replace 0xA 0x20 text)))"

definition ocr_regions :: "ustring list" where
  "ocr_regions =
    [[0x54C1, 0x5DDD], [0x65B0, 0x5BBF], [0x7DF4, 0x99AC], [0x4E16, 0x7530, 0x8C37],
     [0x6749, 0x4E26], [0x6C5F, 0x6771], [0x8DB3, 0x7ACB], [0x845B, 0x98FE],
     [0x6C5F, 0x6238, 0x5DDD], [0x677F, 0x6A4B], [0x53F0, 0x6771], [0x58A8, 0x7530],
     [0x8352, 0x5DDD], [0x5317], [0x8C4A, 0x5CF6], [0x4E2D, 0x91CE], [0x76EE, 0x9ED2],
     [0x5927, 0x7530], [0x6E2F], [0x5343, 0x4EE3, 0x7530], [0x4E2D, 0x592E],
     [0x6587, 0x4EAC], [0x6E0B, 0x8C37], [0x6A2A, 0x6D5C], [0x5DDD, 0x5D0E],
     [0x76F8, 0x6A21], [0x6E58, 0x5357], [0x540D, 0x53E4, 0x5C4B], [0x5927, 0x962A],
     [0x795E, 0x6238], [0x4EAC, 0x90FD], [0x798F, 0x5CA1], [0x672D, 0x5E4C],
     [0x4ED9, 0x53F0], [0x5E83, 0x5CF6]]"

definition hiragana_list :: ustring where
  "hiragana_list =
    [0x3042, 0x3044, 0x3046, 0x3048, 0x304A, 0x304B, 0x304D, 0x304F, 0x3051, 0x3053,
     0x3055, 0x3057, 0x3059, 0x305B, 0x305D, 0x305F, 0x3061, 0x3064, 0x3066, 0x3068,
     0x306A, 0x306B, 0x306C, 0x306D, 0x306E, 0x306F, 0x3072, 0x3075, 0x3078, 0x307B,
     0x307E, 0x307F, 0x3080, 0x3081, 0x3082, 0x3084, 0x3086, 0x3088, 0x3089, 0x308A,
     0x308B, 0x308C, 0x308D, 0x308F, 0x3092, 0x3093]"

definition in_hiragana_list :: "nat \<Rightarrow> bool" where
  "in_hiragana_list c = (c \<in> set hiragana_list)"

definition ocr_pattern1 :: "piece list" where
  "ocr_pattern1 =
    [Piece not_digit_space 1 (Some 4) 1, Piece is_space 0 None 0,
     Piece is_digit 3 (Some 3) 2, Piece is_space 0 None 0,
     Piece hira_range 1 (Some 1) 3, Piece is_space 0 None 0,
     Piece is_digit 1 (Some 2) 4, Piece sep2 1 (Some 1) 4, Piece is_digit 2 (Some 2) 4]"

definition ocr_pattern2 :: "piece list" where
  "ocr_pattern2 =
    [Piece not_digit_space 1 (Some 4) 1, Piece is_space 0 None 0,
     Piece is_digit 3 (Some 3) 2, Piece is_space 0 None 0,
     Piece hira_range 1 (Some 1) 3, Piece is_space 0 None 0,
     Piece is_digit 4 (Some 4) 4]"

definition ocr_hiragana_pattern :: "piece list" where
  "ocr_hiragana_pattern = [Piece in_hiragana_list 1 (Some 1) 1]"

definition ocr_number_patterns :: "piece list list" where
  "ocr_number_patterns =
    [[Piece is_digit 1 (Some 2) 1, Piece sep2 1 (Some 1) 1, Piece is_digit 2 (Some 2) 1],
     [Piece is_digit 4 (Some 4) 1],
     [Piece is_digit 3 (Some 3) 1]]"

text \<open>The loop \<open>for pattern in number_patterns\<close>, which breaks at the first match.\<close>

fun ocr_number_loop :: "piece list list \<Rightarrow> ustring \<Rightarrow> plate \<Rightarrow> plate" where
  "ocr_number_loop [] clean_text result = result"
| "ocr_number_loop (pattern # rest) clean_text result =
     (case re_search pattern clean_text of
        Some m \<Rightarrow>
          (let num = match_group pattern m 1 in
           if length num = 4 \<and> \<not> py_in [0x2D] num then
             result(''number'' \<mapsto> take 2 num @ [0x2D] @ drop 2 num)
           else if length num = 3 then result(''classification'' \<mapsto> num)
           else result(''number'' \<mapsto> num))
      | None \<Rightarrow> ocr_number_loop rest clean_text result)"

definition ocr_hiragana_step :: "ustring \<Rightarrow> plate \<Rightarrow> plate" where
  "ocr_hiragana_step clean_text result =
     (case re_search ocr_hiragana_pattern clean_text of
        Some m \<Rightarrow> result(''hiragana'' \<mapsto> match_group ocr_hiragana_pattern m 1)
      | None \<Rightarrow> result)"

definition ocr_tier3 :: "ustring \<Rightarrow> plate \<Rightarrow> plate" where
  "ocr_tier3 clean_text result =
     ocr_number_loop ocr_number_patterns clean_text
       (ocr_hiragana_step clean_text (region_loop ocr_regions clean_text result))"

text \<open>
  The record that \<open>parse_japanese_license_plate\<close> builds from the text and returns:
  the body of the function from the cleaning of the text on.
\<close>

definition ocr_parse_japanese_license_plate :: "ustring \<Rightarrow> plate" where
  "ocr_parse_japanese_license_plate text =
     (let clean_text = ocr_clean text;
          result = init_result clean_text
      in case re_search ocr_pattern1 clean_text of
           Some m \<Rightarrow>
             result(''region'' \<mapsto> match_group ocr_pattern1 m 1,
                    ''classification'' \<mapsto> match_group ocr_pattern1 m 2,
                    ''hiragana'' \<mapsto> match_group ocr_pattern1 m 3,
                    ''number'' \<mapsto> match_group ocr_pattern1 m 4)
         | None \<Rightarrow>
             (case re_search ocr_pattern2 clean_text of
                Some m \<Rightarrow>
                  (let number = match_group ocr_pattern2 m 4 in
                   result(''region'' \<mapsto> match_group ocr_pattern2 m 1,
                          ''classification'' \<mapsto> match_group ocr_pattern2 m 2,
                          ''hiragana'' \<mapsto> match_group ocr_pattern2 m 3,
                          ''number'' \<mapsto> take 2 number @ [0x2D] @ drop 2 number))
              | None \<Rightarrow> ocr_tier3 clean_text result))"


section \<open>\<open>src/backend/simple_app.py\<close>\<close>

definition simple_regions :: "ustring list" where
  "simple_regions =
    [[0x54C1, 0x5DDD], [0x7DF4, 0x99AC], [0x6A2A, 0x6D5C], [0x540D, 0x53E4, 0x5C4B],
     [0x5927, 0x962A], [0x4EAC, 0x90FD], [0x795E, 0x6238], [0x798F, 0x5CA1]]"

definition simple_number_pattern :: "piece list" where
  "simple_number_pattern =
    [Piece is_digit 1 (Some 2) 1, Piece sep3 0 (Some 1) 1, Piece is_digit 2 (Some 2) 1]"

definition simple_class_pattern :: "piece list" where
  "simple_class_pattern = [Piece is_digit 3 (Some 3) 1]"

definition simple_step :: "piece list \<Rightarrow> string \<Rightarrow> ustring \<Rightarrow> plate \<Rightarrow> plate" where
  "simple_step pattern key clean_text result =
     (case re_search pattern clean_text of
        Some m \<Rightarrow> result(key \<mapsto> match_group pattern m 1)
      | None \<Rightarrow> result)"

text \<open>
  The record that \<open>parse_simple_plate\<close> builds from the text and returns: the body
  of the function from the cleaning of the text on.
\<close>

definition parse_simple_plate :: "ustring \<Rightarrow> plate" where
  "parse_simple_plate text =
     (let clean_text = app_clean text;
          result = init_result clean_text;
          result = region_loop simple_regions clean_text result;
          result = simple_step simple_number_pattern ''number'' clean_text result;
          result = simple_step app_hiragana_pattern ''hiragana'' clean_text result;
          result = simple_step simple_class_pattern ''classification'' clean_text result
      in result)"


section \<open>The OCR result normalizers\<close>

text \<open>
  PaddleOCR returns a list with one entry per image; the entry is \<open>None\<close> or a list of
  lines, and a line is a list \<open>[box, (text, confidence)]\<close>. A line is modelled by its
  pair \<open>(text, confidence)\<close>, and by \<open>None\<close> when the list has fewer than two elements.
  A confidence is a finite float, modelled by the rational number it denotes: the source
  only compares confidences.
\<close>

type_synonym ocr_line = "(ustring \<times> rat) option"

text \<open>The float literals \<open>0.5\<close> and \<open>0.3\<close> as the doubles they denote.\<close>

definition float_0_5 :: rat where
  "float_0_5 = 1 / 2"

definition float_0_3 :: rat where
  "float_0_3 = 5404319552844595 / 18014398509481984"

subsection \<open>\<open>src/api/ocr.py\<close>\<close>

fun ocr_collect :: "ocr_line list \<Rightarrow> ustring list" where
  "ocr_collect [] = []"
| "ocr_collect (None # rest) = ocr_collect rest"
| "ocr_collect (Some (text, confidence) # rest) =
     (if confidence > float_0_5 then text # ocr_collect rest else ocr_collect rest)"

definition ocr_extract_text_from_paddle_result :: "ocr_line list option list \<Rightarrow> ustring" where
  "ocr_extract_text_from_paddle_result result =
     (case result of
        [] \<Rightarrow> []
      | None # _ \<Rightarrow> []
      | Some [] # _ \<Rightarrow> []
      | Some lines # _ \<Rightarrow> py_join [0x20] (ocr_collect lines))"

subsection \<open>\<open>src/backend/app.py\<close>\<close>

text \<open>The loop that fills the two lists \<open>texts\<close> and \<open>confidences\<close>.\<close>

fun app_collect :: "ocr_line list \<Rightarrow> ustring list \<times> rat list" where
  "app_collect [] = ([], [])"
| "app_collect (None # rest) = app_collect rest"
| "app_collect (Some (text, confidence) # rest) =
     (if confidence > float_0_3 then
        (case app_collect rest of
           (texts, confidences) \<Rightarrow> (text # texts, confidence # confidences))
      else app_collect rest)"

text \<open>Python's \<open><\<close> on strings (by code points) and on tuples \<open>(confidence, text)\<close>.\<close>

fun str_lt :: "ustring \<Rightarrow> ustring \<Rightarrow> bool" where
  "str_lt [] [] = False"
| "str_lt [] (y # ys) = True"
| "str_lt (x # xs) [] = False"
| "str_lt (x # xs) (y # ys) = (if x \<noteq> y then x < y else str_lt xs ys)"

definition tuple_lt :: "rat \<times> ustring \<Rightarrow> rat \<times> ustring \<Rightarrow> bool" where
  "tuple_lt a b = (if fst a \<noteq> fst b then fst a < fst b else str_lt (snd a) (snd b))"

text \<open>
  \<open>sorted(xs, reverse=True)\<close>: CPython reverses the list, sorts it stably in ascending
  order, comparing with \<open><\<close> only, and reverses the result.
\<close>

fun insort_lt :: "rat \<times> ustring \<Rightarrow> (rat \<times> ustring) list \<Rightarrow> (rat \<times> ustring) list" where
  "insort_lt x [] = [x]"
| "insort_lt x (y # ys) = (if tuple_lt y x then y # insort_lt x ys else x # y # ys)"

definition stable_sort :: "(rat \<times> ustring) list \<Rightarrow> (rat \<times> ustring) list" where
  "stable_sort xs = foldr insort_lt xs []"

definition sorted_reverse :: "(rat \<times> ustring) list \<Rightarrow> (rat \<times> ustring) list" where
  "sorted_reverse xs = rev (stable_sort (rev xs))"

definition app_extract_text_from_paddle_result :: "ocr_line list option list \<Rightarrow> ustring" where
  "app_extract_text_from_paddle_result result =
     (case result of
        [] \<Rightarrow> []
      | None # _ \<Rightarrow> []
      | Some [] # _ \<Rightarrow> []
      | Some lines # _ \<Rightarrow>
          (case app_collect lines of
             (texts, confidences) \<Rightarrow>
               py_join [0x20] (map snd (sorted_reverse (zip confidences texts)))))"

section \<open>Specification predicates\<close>

text \<open>
  What it means for a list of strings to be a match of a pattern, piece by piece, without
  reference to the order in which the matcher searches.
\<close>

definition fits1 :: "piece \<Rightarrow> ustring \<Rightarrow> bool" where
  "fits1 p g = (lo p \<le> length g \<and> (case hi p of None \<Rightarrow> True | Some h \<Rightarrow> length g \<le> h) \<and> list_all (cls p) g)"

definition fits :: "piece list \<Rightarrow> ustring list \<Rightarrow> bool" where
  "fits ps gs = list_all2 fits1 ps gs"

definition occurs :: "ustring \<Rightarrow> ustring \<Rightarrow> bool" where
  "occurs r s = (\<exists>pre post. s = pre @ r @ post)"

text \<open>A pattern matches somewhere in a string.\<close>

definition matches :: "piece list \<Rightarrow> ustring \<Rightarrow> bool" where
  "matches pat s = (\<exists>gs pre post. fits pat gs \<and> s = pre @ concat gs @ post)"

section \<open>Example inputs\<close>

text \<open>
  The plate of the specification's examples with each of the three separators, without a
  separator, and behind noise that a catalogue search would skip.
\<close>

definition plate_with :: "ustring \<Rightarrow> ustring" where
  "plate_with serial =
     [0x54C1, 0x5DDD, 0x20, 0x35, 0x30, 0x30, 0x20, 0x3042, 0x20] @ serial"

definition partial_plate :: ustring where
  "partial_plate =
     [0x30CE, 0x30A4, 0x30BA, 0x20, 0x6A2A, 0x6D5C, 0x20, 0x30CE, 0x30A4, 0x30BA, 0x20, 0x3042,
      0x20, 0x31, 0x32, 0x2D, 0x33, 0x34]"

definition noisy_plate :: ustring where
  "noisy_plate =
     [0x6A2A, 0x6D5C, 0x20, 0x58, 0x54C1, 0x5DDD, 0x20, 0x35, 0x30, 0x30, 0x20, 0x3042, 0x20,
      0x31, 0x32, 0x2D, 0x33, 0x34]"

text \<open>
  A serial with a separator: one or two digits, one separator character, two digits.
\<close>

fun serial_shape :: "(nat \<Rightarrow> bool) \<Rightarrow> (nat \<Rightarrow> bool) \<Rightarrow> ustring \<Rightarrow> bool" where
  "serial_shape digit sep [a, x, b, c] = (digit a \<and> sep x \<and> digit b \<and> digit c)"
| "serial_shape digit sep [a, a', x, b, c] = (digit a \<and> digit a' \<and> sep x \<and> digit b \<and> digit c)"
| "serial_shape digit sep s = False"

text \<open>A text whose digits are exactly those of one run \<open>d\<close>, between \<open>pre\<close> and \<open>post\<close>.\<close>

definition digit_run :: "ustring \<Rightarrow> ustring \<Rightarrow> ustring \<Rightarrow> ustring \<Rightarrow> bool" where
  "digit_run s pre d post =
     (s = pre @ d @ post \<and> list_all is_digit d \<and>
      list_all (\<lambda>c. \<not> is_digit c) pre \<and> list_all (\<lambda>c. \<not> is_digit c) post)"

text \<open>The field formats of the specification's data model.\<close>

fun dd_dd :: "ustring \<Rightarrow> bool" where
  "dd_dd [a, b, h, c, d] = (is_digit a \<and> is_digit b \<and> h = 0x2D \<and> is_digit c \<and> is_digit d)"
| "dd_dd s = False"

definition digits_n :: "nat \<Rightarrow> ustring \<Rightarrow> bool" where
  "digits_n n s = (length s = n \<and> list_all is_digit s)"

text \<open>
  The inputs on which the partial matching of \<open>ocr.py\<close> finds a separated serial of four
  characters without a hyphen-minus, that is, one digit, U+2212 and two digits.
\<close>

definition ocr_short_minus_serial :: "ustring \<Rightarrow> bool" where
  "ocr_short_minus_serial text =
     (re_search ocr_pattern1 (ocr_clean text) = None \<and>
      re_search ocr_pattern2 (ocr_clean text) = None \<and>
      (case re_search (ocr_number_patterns ! 0) (ocr_clean text) of
         None \<Rightarrow> False
       | Some m \<Rightarrow> length (concat m) = 4 \<and> \<not> py_in [0x2D] (concat m)))"



text \<open>
  The lines that survive a confidence threshold, as pairs \<open>(text, confidence)\<close> in the
  order of the OCR result: a line is discarded when its confidence is at or below the
  threshold.
\<close>

definition survivors :: "rat \<Rightarrow> ocr_line list \<Rightarrow> (ustring \<times> rat) list" where
  "survivors threshold lines = filter (\<lambda>(t, c). threshold < c) (List.map_filter id lines)"

text \<open>Lines for the examples; the confidences 0.25, 0.75 and 0.875 are exact as floats.\<close>

definition two_lines :: "ocr_line list" where
  "two_lines = [Some ([0x61], 3 / 4), Some ([0x62], 7 / 8)]"

definition tied_lines :: "ocr_line list" where
  "tied_lines = [Some ([0x61], 7 / 8), Some ([0x62], 7 / 8)]"

definition faint_lines :: "ocr_line list" where
  "faint_lines = [Some ([0x672D, 0x5E4C], 1 / 4), None]"

text \<open>
  The Tier 1 pattern in the specification's words: a region of one to five characters
  that are neither digits nor white space, three digits, one hiragana of U+3042 to
  U+3093, and a serial of one or two digits, one of the separators hyphen-minus, U+2212
  and U+30FC, and two digits; white space may stand between the four parts.
\<close>

definition tier1_pattern :: "piece list" where
  "tier1_pattern =
    [Piece (\<lambda>c. \<not> is_digit c \<and> \<not> is_space c) 1 (Some 5) 1, Piece is_space 0 None 0,
     Piece is_digit 3 (Some 3) 2, Piece is_space 0 None 0,
     Piece (\<lambda>c. 0x3042 \<le> c \<and> c \<le> 0x3093) 1 (Some 1) 3, Piece is_space 0 None 0,
     Piece is_digit 1 (Some 2) 4, Piece (\<lambda>c. c \<in> {0x2D, 0x2212, 0x30FC}) 1 (Some 1) 4,
     Piece is_digit 2 (Some 2) 4]"

text \<open>
  Two plates for the Tier 1 pattern: one with noise before the region and the long mark
  U+30FC in the serial, one with a region of five characters.
\<close>

definition long_mark_plate :: ustring where
  "long_mark_plate =
     [0x6A2A, 0x6D5C, 0x20, 0x58, 0x54C1, 0x5DDD, 0x20, 0x35, 0x30, 0x30, 0x20, 0x3042, 0x20,
      0x31, 0x32, 0x30FC, 0x33, 0x34]"

definition wide_region_plate :: ustring where
  "wide_region_plate =
     [0x540D, 0x53E4, 0x5C4B, 0x6771, 0x4EAC, 0x20, 0x35, 0x30, 0x30, 0x20, 0x3042, 0x20,
      0x31, 0x32, 0x2D, 0x33, 0x34]"

text \<open>
  The inputs on which a parser builds the number from four digits in a row: the first
  full pattern does not match and either the second one matches or, in the partial
  matching, the separated serial is not found and four digits in a row are.
\<close>

definition synthesizes ::
  "piece list \<Rightarrow> piece list \<Rightarrow> piece list list \<Rightarrow> ustring \<Rightarrow> bool" where
  "synthesizes p1 p2 ns c =
     (re_search p1 c = None \<and>
      (re_search p2 c \<noteq> None \<or>
       (re_search (ns ! 0) c = None \<and> re_search (ns ! 1) c \<noteq> None)))"

section \<open>Properties of the matcher\<close>

declare rx_back.simps [simp del]

lemma reach_le_length: "reach p s \<le> length s"
  unfolding reach_def
  by (cases "hi p") (auto intro: order_trans[OF length_takeWhile_le])

lemma reach_le_hi: "hi p = Some h \<Longrightarrow> reach p s \<le> h"
  unfolding reach_def
  by (auto intro: order_trans[OF length_takeWhile_le])

lemma reach_cls: "k \<le> reach p s \<Longrightarrow> list_all (cls p) (take k s)"
proof -
  assume k: "k \<le> reach p s"
  let ?t = "case hi p of None \<Rightarrow> s | Some h \<Rightarrow> take h s"
  have pre: "take (reach p s) s = takeWhile (cls p) ?t"
  proof (cases "hi p")
    case None
    then show ?thesis unfolding reach_def
      by simp (metis takeWhile_eq_take)
  next
    case (Some h)
    have "takeWhile (cls p) (take h s) = take (length (takeWhile (cls p) (take h s))) (take h s)"
      by (metis takeWhile_eq_take)
    also have "\<dots> = take (length (takeWhile (cls p) (take h s))) s"
    proof -
      have "length (takeWhile (cls p) (take h s)) \<le> h"
        using length_takeWhile_le[of "cls p" "take h s"] by simp
      then show ?thesis by (simp add: min_absorb1)
    qed
    finally show ?thesis using Some unfolding reach_def by simp
  qed
  have "list_all (cls p) (takeWhile (cls p) ?t)"
    by (simp add: list_all_iff) (meson set_takeWhileD)
  with pre have "list_all (cls p) (take (reach p s) s)" by simp
  moreover have "take k s = take k (take (reach p s) s)" using k by (simp add: min_def)
  ultimately show ?thesis
    by (metis list_all_iff in_set_takeD)
qed

lemma reach_ge:
  assumes "k \<le> length s" "list_all (cls p) (take k s)" "\<And>h. hi p = Some h \<Longrightarrow> k \<le> h"
  shows "k \<le> reach p s"
proof -
  let ?t = "case hi p of None \<Rightarrow> s | Some h \<Rightarrow> take h s"
  have "take k ?t = take k s" using assms(3) by (cases "hi p") (auto simp: min_def)
  then have "?t = take k s @ drop k ?t" by (metis append_take_drop_id)
  then have "takeWhile (cls p) ?t = take k s @ takeWhile (cls p) (drop k ?t)"
    using assms(2) by (metis list_all_iff takeWhile_append2)
  then have "length (takeWhile (cls p) ?t) \<ge> length (take k s)" by simp
  then show ?thesis using assms(1) unfolding reach_def by simp
qed

lemma rx_back_Some:
  "rx_back p ps s k = Some gs \<Longrightarrow>
     \<exists>j r. j \<le> k \<and> (lo p \<le> j \<or> j = k) \<and> rx_match ps (drop j s) = Some r \<and> gs = take j s # r"
proof (induction k)
  case 0
  then show ?case
    by (subst (asm) rx_back.simps) (auto split: option.splits)
next
  case (Suc k)
  show ?case
  proof (cases "rx_match ps (drop (Suc k) s)")
    case (Some r)
    with Suc.prems have "gs = take (Suc k) s # r"
      by (subst (asm) rx_back.simps) simp
    with Some show ?thesis by blast
  next
    case None
    with Suc.prems have nle: "\<not> Suc k \<le> lo p" and b: "rx_back p ps s k = Some gs"
      by (subst (asm) rx_back.simps, simp split: if_splits)+
    from Suc.IH[OF b] obtain j r where "j \<le> k" "lo p \<le> j \<or> j = k"
      "rx_match ps (drop j s) = Some r" "gs = take j s # r" by blast
    with nle show ?thesis by (intro exI[of _ j] exI[of _ r]) auto
  qed
qed

lemma rx_back_None:
  "rx_back p ps s k = None \<Longrightarrow> lo p \<le> j \<Longrightarrow> j \<le> k \<Longrightarrow> rx_match ps (drop j s) = None"
proof (induction k)
  case 0
  then show ?case
    by (subst (asm) rx_back.simps) (auto split: option.splits)
next
  case (Suc k)
  from Suc.prems(1) have here: "rx_match ps (drop (Suc k) s) = None"
    by (subst (asm) rx_back.simps) (simp split: option.splits)
  show ?case
  proof (cases "j = Suc k")
    case True
    with here show ?thesis by simp
  next
    case False
    with Suc.prems have jk: "j \<le> k" and "\<not> Suc k \<le> lo p" by auto
    with Suc.prems(1) here have "rx_back p ps s k = None"
      by (subst (asm) rx_back.simps) simp
    from Suc.IH[OF this Suc.prems(2) jk] show ?thesis .
  qed
qed

lemma rx_match_sound:
  "rx_match ps s = Some gs \<Longrightarrow> fits ps gs \<and> take (length (concat gs)) s = concat gs"
proof (induction ps arbitrary: s gs)
  case Nil
  then show ?case by (simp add: fits_def)
next
  case (Cons p ps)
  from Cons.prems have ge: "lo p \<le> reach p s" and b: "rx_back p ps s (reach p s) = Some gs"
    by (auto split: if_splits)
  from rx_back_Some[OF b] ge obtain k r where k: "lo p \<le> k" "k \<le> reach p s"
    and r: "rx_match ps (drop k s) = Some r" and gs: "gs = take k s # r"
    by auto
  from Cons.IH[OF r] have ih: "fits ps r" "take (length (concat r)) (drop k s) = concat r" by auto
  have kl: "k \<le> length s" using k(2) reach_le_length[of p s] by simp
  have "fits1 p (take k s)"
    unfolding fits1_def using k kl reach_cls[OF k(2)] reach_le_hi[of p _ s]
    by (auto split: option.splits simp: min_def)
  moreover have "take (length (concat gs)) s = concat gs"
  proof -
    have "length (concat gs) = k + length (concat r)" using kl gs by simp
    then have "take (length (concat gs)) s = take k s @ take (length (concat r)) (drop k s)"
      by (simp only: take_add)
    with ih(2) gs show ?thesis by simp
  qed
  ultimately show ?case using ih(1) gs by (simp add: fits_def)
qed

lemma rx_match_complete:
  "fits ps gs \<Longrightarrow> take (length (concat gs)) s = concat gs \<Longrightarrow> rx_match ps s \<noteq> None"
proof (induction ps arbitrary: s gs)
  case Nil
  then show ?case by simp
next
  case (Cons p ps)
  from Cons.prems(1) obtain g r where gs: "gs = g # r" and g: "fits1 p g" and r: "fits ps r"
    by (auto simp: fits_def list_all2_Cons1)
  let ?k = "length g"
  from Cons.prems(2) gs have pre: "take (?k + length (concat r)) s = g @ concat r" by simp
  have "take ?k (take (?k + length (concat r)) s) = take ?k (g @ concat r)"
    using pre by simp
  then have tk: "take ?k s = g" by (simp add: min_def)
  have kl: "?k \<le> length s"
  proof (rule ccontr)
    assume "\<not> ?k \<le> length s"
    then have "length (take ?k s) < ?k" by simp
    with tk show False by simp
  qed
  have "drop ?k (take (?k + length (concat r)) s) = drop ?k (g @ concat r)"
    using pre by simp
  then have "take (length (concat r)) (drop ?k s) = concat r"
    by (simp add: drop_take)
  from Cons.IH[OF r this] obtain m where m: "rx_match ps (drop ?k s) = Some m" by auto
  have kr: "?k \<le> reach p s"
    using g kl tk by (intro reach_ge) (auto simp: fits1_def)
  have lk: "lo p \<le> ?k" using g by (simp add: fits1_def)
  show ?case
  proof
    assume n: "rx_match (p # ps) s = None"
    from lk kr have "\<not> reach p s < lo p" by simp
    with n have "rx_back p ps s (reach p s) = None" by simp
    from rx_back_None[OF this lk kr] m show False by simp
  qed
qed

lemma re_search_Some:
  "re_search pat s = Some gs \<Longrightarrow> \<exists>i\<le>length s. rx_match pat (drop i s) = Some gs"
proof (induction s)
  case Nil
  then show ?case by simp
next
  case (Cons c cs)
  show ?case
  proof (cases "rx_match pat (c # cs)")
    case None
    with Cons.prems have "re_search pat cs = Some gs" by simp
    from Cons.IH[OF this] obtain i where "i \<le> length cs" "rx_match pat (drop i cs) = Some gs"
      by blast
    then show ?thesis by (intro exI[of _ "Suc i"]) simp
  next
    case (Some m)
    with Cons.prems have "rx_match pat (drop 0 (c # cs)) = Some gs" by simp
    then show ?thesis by blast
  qed
qed

lemma re_search_None:
  "re_search pat s = None \<Longrightarrow> i \<le> length s \<Longrightarrow> rx_match pat (drop i s) = None"
proof (induction s arbitrary: i)
  case Nil
  then show ?case by simp
next
  case (Cons c cs)
  from Cons.prems(1) have here: "rx_match pat (c # cs) = None" and rest: "re_search pat cs = None"
    by (auto split: option.splits)
  show ?case
  proof (cases i)
    case 0
    with here show ?thesis by simp
  next
    case (Suc i')
    with Cons.prems(2) have "i' \<le> length cs" by simp
    from Cons.IH[OF rest this] Suc show ?thesis by simp
  qed
qed

lemma re_search_sound:
  "re_search pat s = Some gs \<Longrightarrow> fits pat gs \<and> (\<exists>pre post. s = pre @ concat gs @ post)"
proof -
  assume "re_search pat s = Some gs"
  then obtain i where "rx_match pat (drop i s) = Some gs"
    by (auto dest: re_search_Some)
  from rx_match_sound[OF this] have f: "fits pat gs" and t: "take (length (concat gs)) (drop i s) = concat gs" by auto
  have "s = take i s @ drop i s" by simp
  also have "drop i s = concat gs @ drop (length (concat gs)) (drop i s)"
    using t append_take_drop_id[of "length (concat gs)" "drop i s"] by simp
  finally show ?thesis using f by blast
qed

lemma re_search_complete:
  assumes "fits pat gs" "s = pre @ concat gs @ post"
  shows "re_search pat s \<noteq> None"
proof
  assume n: "re_search pat s = None"
  have "take (length (concat gs)) (drop (length pre) s) = concat gs" using assms(2) by simp
  from rx_match_complete[OF assms(1) this] obtain m where m: "rx_match pat (drop (length pre) s) = Some m" by auto
  have "length pre \<le> length s" using assms(2) by simp
  from re_search_None[OF n this] m show False by simp
qed

lemma re_search_iff: "(\<exists>m. re_search pat s = Some m) \<longleftrightarrow> matches pat s"
  unfolding matches_def
  using re_search_sound[of pat s] re_search_complete[of pat _ s] by blast

lemma re_search_None_iff: "re_search pat s = None \<longleftrightarrow> \<not> matches pat s"
  using re_search_iff[of pat s] by auto

lemma fits_Nil: "fits [] gs \<longleftrightarrow> gs = []"
  by (simp add: fits_def)

lemma fits_Cons: "fits (p # ps) gs \<longleftrightarrow> (\<exists>g r. gs = g # r \<and> fits1 p g \<and> fits ps r)"
  by (auto simp: fits_def list_all2_Cons1)

lemma fits1_one: "fits1 (Piece X 1 (Some 1) n) g \<longleftrightarrow> (\<exists>x. g = [x] \<and> X x)"
proof (cases g)
  case Nil
  then show ?thesis by (simp add: fits1_def)
next
  case (Cons x xs)
  then show ?thesis by (cases xs) (auto simp: fits1_def)
qed

lemma fits1_bounded:
  "fits1 (Piece X a (Some b) n) g \<longleftrightarrow> a \<le> length g \<and> length g \<le> b \<and> list_all X g"
  by (simp add: fits1_def)

lemma fits1_star: "fits1 (Piece X 0 None n) g \<longleftrightarrow> list_all X g"
  by (simp add: fits1_def)

lemma tier1_shape:
  assumes "fits [Piece R 1 (Some n) 1, Piece W1 0 None 0, Piece C 3 (Some 3) 2, Piece W2 0 None 0,
     Piece H 1 (Some 1) 3, Piece W3 0 None 0,
     Piece D1 1 (Some 2) 4, Piece S 1 (Some 1) 4, Piece D2 2 (Some 2) 4] m"
  shows "\<exists>r w1 c w2 h w3 d1 x d2. m = [r, w1, c, w2, [h], w3, d1, [x], d2] \<and>
     1 \<le> length r \<and> length r \<le> n \<and> list_all R r \<and> length c = 3 \<and> list_all C c \<and> H h \<and>
     1 \<le> length d1 \<and> length d1 \<le> 2 \<and> list_all D1 d1 \<and> S x \<and> length d2 = 2 \<and> list_all D2 d2"
  using assms
  by (simp only: fits_Cons fits_Nil fits1_one fits1_star) (auto simp: fits1_bounded)

lemma tier2_shape:
  assumes "fits [Piece R 1 (Some n) 1, Piece W1 0 None 0, Piece C 3 (Some 3) 2, Piece W2 0 None 0,
     Piece H 1 (Some 1) 3, Piece W3 0 None 0, Piece D 4 (Some 4) 4] m"
  shows "\<exists>r w1 c w2 h w3 d. m = [r, w1, c, w2, [h], w3, d] \<and>
     1 \<le> length r \<and> length r \<le> n \<and> list_all R r \<and> length c = 3 \<and> list_all C c \<and> H h \<and>
     length d = 4 \<and> list_all D d"
  using assms
  by (simp only: fits_Cons fits_Nil fits1_one fits1_star) (auto simp: fits1_bounded)

section \<open>Evaluation on concrete inputs\<close>

lemmas class_defs = is_digit_def is_space_def in_ranges_def digit_ranges_def space_ranges_def
  not_digit_space_def hira_range_def sep2_def sep3_def in_hiragana_list_def hiragana_list_def

lemmas engine_defs = rx_back.simps reach_def match_group_def py_replace_def py_strip_def
  py_lstrip_def py_rstrip_def
  init_result_def starts_with_def py_split.simps

lemmas app_defs = app_parse_japanese_license_plate_def app_clean_def app_pattern1_def
  app_pattern2_def app_tier3_def app_hiragana_step_def app_hiragana_pattern_def
  app_number_patterns_def app_regions_def

lemmas ocr_defs = ocr_parse_japanese_license_plate_def ocr_clean_def ocr_pattern1_def
  ocr_pattern2_def ocr_tier3_def ocr_hiragana_step_def ocr_hiragana_pattern_def
  ocr_number_patterns_def ocr_regions_def

section \<open>The full patterns\<close>

lemma result_upd4:
  "(init_result c)(''region'' \<mapsto> a, ''classification'' \<mapsto> b, ''hiragana'' \<mapsto> h, ''number'' \<mapsto> n) =
   [''region'' \<mapsto> a, ''classification'' \<mapsto> b, ''hiragana'' \<mapsto> h, ''number'' \<mapsto> n, ''full_text'' \<mapsto> c]"
  by (auto simp: init_result_def fun_eq_iff)

lemma app_tier1_result:
  "re_search app_pattern1 (app_clean text) = Some m \<Longrightarrow>
   app_parse_japanese_license_plate text =
     [''region'' \<mapsto> match_group app_pattern1 m 1, ''classification'' \<mapsto> match_group app_pattern1 m 2,
      ''hiragana'' \<mapsto> match_group app_pattern1 m 3, ''number'' \<mapsto> match_group app_pattern1 m 4,
      ''full_text'' \<mapsto> app_clean text]"
  by (simp add: app_parse_japanese_license_plate_def result_upd4 del: fun_upd_apply)

lemma ocr_tier1_result:
  "re_search ocr_pattern1 (ocr_clean text) = Some m \<Longrightarrow>
   ocr_parse_japanese_license_plate text =
     [''region'' \<mapsto> match_group ocr_pattern1 m 1, ''classification'' \<mapsto> match_group ocr_pattern1 m 2,
      ''hiragana'' \<mapsto> match_group ocr_pattern1 m 3, ''number'' \<mapsto> match_group ocr_pattern1 m 4,
      ''full_text'' \<mapsto> ocr_clean text]"
  by (simp add: ocr_parse_japanese_license_plate_def result_upd4 del: fun_upd_apply)

lemma tier1_pattern_app: "tier1_pattern = app_pattern1"
  by (simp add: tier1_pattern_def app_pattern1_def class_defs fun_eq_iff)

text \<open>
  Claim C3, as the code has it. When the cleaned text matches the first full pattern of
  a parser, the record returned is the one built from the groups of that pattern's match:
  region, classification, hiragana and number are the four groups and \<open>full_text\<close> is the
  cleaned text. The second pattern and the partial matching play no part, also when the
  catalogue search on the same text would give another region. Each parser has its own
  first pattern: that of \<open>app.py\<close> is the Tier 1 pattern of the specification, that of
  \<open>ocr.py\<close> has a region of one to four characters and the separators hyphen-minus and
  U+2212 only.
\<close>

theorem tier1_precedence:
  "tier1_pattern = app_pattern1 \<and>
   (matches app_pattern1 (app_clean text) \<longrightarrow>
      (\<exists>m. re_search app_pattern1 (app_clean text) = Some m \<and>
           app_parse_japanese_license_plate text =
             [''region'' \<mapsto> match_group app_pattern1 m 1, ''classification'' \<mapsto> match_group app_pattern1 m 2,
              ''hiragana'' \<mapsto> match_group app_pattern1 m 3, ''number'' \<mapsto> match_group app_pattern1 m 4,
              ''full_text'' \<mapsto> app_clean text])) \<and>
   (matches ocr_pattern1 (ocr_clean text) \<longrightarrow>
      (\<exists>m. re_search ocr_pattern1 (ocr_clean text) = Some m \<and>
           ocr_parse_japanese_license_plate text =
             [''region'' \<mapsto> match_group ocr_pattern1 m 1, ''classification'' \<mapsto> match_group ocr_pattern1 m 2,
              ''hiragana'' \<mapsto> match_group ocr_pattern1 m 3, ''number'' \<mapsto> match_group ocr_pattern1 m 4,
              ''full_text'' \<mapsto> ocr_clean text]))"
proof (intro conjI impI)
  show "tier1_pattern = app_pattern1" by (rule tier1_pattern_app)
next
  assume "matches app_pattern1 (app_clean text)"
  then obtain m where m: "re_search app_pattern1 (app_clean text) = Some m"
    using re_search_iff by blast
  from m app_tier1_result[OF m]
  show "\<exists>m. re_search app_pattern1 (app_clean text) = Some m \<and>
           app_parse_japanese_license_plate text =
             [''region'' \<mapsto> match_group app_pattern1 m 1, ''classification'' \<mapsto> match_group app_pattern1 m 2,
              ''hiragana'' \<mapsto> match_group app_pattern1 m 3, ''number'' \<mapsto> match_group app_pattern1 m 4,
              ''full_text'' \<mapsto> app_clean text]"
    by (intro exI[of _ m] conjI)
next
  assume "matches ocr_pattern1 (ocr_clean text)"
  then obtain m where m: "re_search ocr_pattern1 (ocr_clean text) = Some m"
    using re_search_iff by blast
  from m ocr_tier1_result[OF m]
  show "\<exists>m. re_search ocr_pattern1 (ocr_clean text) = Some m \<and>
           ocr_parse_japanese_license_plate text =
             [''region'' \<mapsto> match_group ocr_pattern1 m 1, ''classification'' \<mapsto> match_group ocr_pattern1 m 2,
              ''hiragana'' \<mapsto> match_group ocr_pattern1 m 3, ''number'' \<mapsto> match_group ocr_pattern1 m 4,
              ''full_text'' \<mapsto> ocr_clean text]"
    by (intro exI[of _ m] conjI)
qed


lemma noisy_clean: "app_clean noisy_plate = noisy_plate" "ocr_clean noisy_plate = noisy_plate"
  by (simp_all add: noisy_plate_def app_clean_def ocr_clean_def engine_defs class_defs)

lemma noisy_app1: "re_search app_pattern1 noisy_plate =
   Some [[0x58, 0x54C1, 0x5DDD], [0x20], [0x35, 0x30, 0x30], [0x20], [0x3042], [0x20], [0x31, 0x32], [0x2D], [0x33, 0x34]]"
  by (simp add: noisy_plate_def app_pattern1_def engine_defs class_defs)

lemma noisy_ocr1: "re_search ocr_pattern1 noisy_plate =
   Some [[0x58, 0x54C1, 0x5DDD], [0x20], [0x35, 0x30, 0x30], [0x20], [0x3042], [0x20], [0x31, 0x32], [0x2D], [0x33, 0x34]]"
  by (simp add: noisy_plate_def ocr_pattern1_def engine_defs class_defs)

lemma noisy_region_loop:
  "region_loop app_regions noisy_plate r = r(''region'' \<mapsto> [0x54C1, 0x5DDD])"
  "region_loop ocr_regions noisy_plate r = r(''region'' \<mapsto> [0x54C1, 0x5DDD])"
  by (simp_all add: noisy_plate_def app_regions_def ocr_regions_def starts_with_def del: fun_upd_apply)

theorem tier1_precedence_witness:
  "matches app_pattern1 (app_clean noisy_plate) \<and> matches ocr_pattern1 (ocr_clean noisy_plate) \<and>
   app_parse_japanese_license_plate noisy_plate ''region'' = Some [0x58, 0x54C1, 0x5DDD] \<and>
   ocr_parse_japanese_license_plate noisy_plate ''region'' = Some [0x58, 0x54C1, 0x5DDD] \<and>
   region_loop app_regions (app_clean noisy_plate) (init_result (app_clean noisy_plate)) ''region''
     = Some [0x54C1, 0x5DDD] \<and>
   region_loop ocr_regions (ocr_clean noisy_plate) (init_result (ocr_clean noisy_plate)) ''region''
     = Some [0x54C1, 0x5DDD]"
proof -
  have a: "matches app_pattern1 (app_clean noisy_plate)"
    using re_search_iff[of app_pattern1 noisy_plate] by (simp add: noisy_clean noisy_app1)
  have b: "matches ocr_pattern1 (ocr_clean noisy_plate)"
    using re_search_iff[of ocr_pattern1 noisy_plate] by (simp add: noisy_clean noisy_ocr1)
  from tier1_precedence[of noisy_plate] a obtain m where
    m: "re_search app_pattern1 (app_clean noisy_plate) = Some m" and
    pm: "app_parse_japanese_license_plate noisy_plate ''region'' = Some (match_group app_pattern1 m 1)"
    by auto
  from m have "m = [[0x58, 0x54C1, 0x5DDD], [0x20], [0x35, 0x30, 0x30], [0x20], [0x3042], [0x20], [0x31, 0x32], [0x2D], [0x33, 0x34]]"
    by (simp add: noisy_clean noisy_app1)
  with pm have c: "app_parse_japanese_license_plate noisy_plate ''region'' = Some [0x58, 0x54C1, 0x5DDD]"
    by (simp add: match_group_def app_pattern1_def)
  from tier1_precedence[of noisy_plate] b obtain m' where
    m': "re_search ocr_pattern1 (ocr_clean noisy_plate) = Some m'" and
    pm': "ocr_parse_japanese_license_plate noisy_plate ''region'' = Some (match_group ocr_pattern1 m' 1)"
    by auto
  from m' have "m' = [[0x58, 0x54C1, 0x5DDD], [0x20], [0x35, 0x30, 0x30], [0x20], [0x3042], [0x20], [0x31, 0x32], [0x2D], [0x33, 0x34]]"
    by (simp add: noisy_clean noisy_ocr1)
  with pm' have d: "ocr_parse_japanese_license_plate noisy_plate ''region'' = Some [0x58, 0x54C1, 0x5DDD]"
    by (simp add: match_group_def ocr_pattern1_def)
  from a b c d show ?thesis by (simp add: noisy_clean noisy_region_loop)
qed

lemma long_mark_tier1:
  "re_search tier1_pattern (ocr_clean long_mark_plate) =
     Some [[0x58, 0x54C1, 0x5DDD], [0x20], [0x35, 0x30, 0x30], [0x20], [0x3042], [0x20],
           [0x31, 0x32], [0x30FC], [0x33, 0x34]]"
  by (simp add: long_mark_plate_def tier1_pattern_def ocr_clean_def engine_defs class_defs)

lemma long_mark_ocr:
  "ocr_parse_japanese_license_plate long_mark_plate =
     [''region'' \<mapsto> [0x54C1, 0x5DDD], ''classification'' \<mapsto> [0x35, 0x30, 0x30],
      ''hiragana'' \<mapsto> [0x3042], ''number'' \<mapsto> [], ''full_text'' \<mapsto> long_mark_plate]"
  by (rule ext) (simp add: long_mark_plate_def ocr_defs engine_defs class_defs)

lemma wide_region_tier1:
  "re_search tier1_pattern (ocr_clean wide_region_plate) =
     Some [[0x540D, 0x53E4, 0x5C4B, 0x6771, 0x4EAC], [0x20], [0x35, 0x30, 0x30], [0x20], [0x3042],
           [0x20], [0x31, 0x32], [0x2D], [0x33, 0x34]]"
  by (simp add: wide_region_plate_def tier1_pattern_def ocr_clean_def engine_defs class_defs)

lemma wide_region_ocr:
  "ocr_parse_japanese_license_plate wide_region_plate =
     [''region'' \<mapsto> [0x53E4, 0x5C4B, 0x6771, 0x4EAC], ''classification'' \<mapsto> [0x35, 0x30, 0x30],
      ''hiragana'' \<mapsto> [0x3042], ''number'' \<mapsto> [0x31, 0x32, 0x2D, 0x33, 0x34],
      ''full_text'' \<mapsto> wide_region_plate]"
  by (rule ext) (simp add: wide_region_plate_def ocr_defs engine_defs class_defs)

text \<open>
  Claim C3 as stated fails for \<open>ocr.py\<close>. The Tier 1 pattern of the specification
  matches the plate with the long mark, with the serial as fourth group, and \<open>ocr.py\<close>,
  whose first pattern does not take U+30FC, goes on to the partial matching: the region
  comes from the catalogue and the number stays empty. On the plate with a region of five
  characters the Tier 1 pattern captures all five and \<open>ocr.py\<close> returns the last four.
\<close>

theorem tier1_precedence_counterexample:
  "matches tier1_pattern (ocr_clean long_mark_plate) \<and>
   re_search tier1_pattern (ocr_clean long_mark_plate) =
     Some [[0x58, 0x54C1, 0x5DDD], [0x20], [0x35, 0x30, 0x30], [0x20], [0x3042], [0x20],
           [0x31, 0x32], [0x30FC], [0x33, 0x34]] \<and>
   match_group tier1_pattern
     [[0x58, 0x54C1, 0x5DDD], [0x20], [0x35, 0x30, 0x30], [0x20], [0x3042], [0x20],
      [0x31, 0x32], [0x30FC], [0x33, 0x34]] 1 = [0x58, 0x54C1, 0x5DDD] \<and>
   match_group tier1_pattern
     [[0x58, 0x54C1, 0x5DDD], [0x20], [0x35, 0x30, 0x30], [0x20], [0x3042], [0x20],
      [0x31, 0x32], [0x30FC], [0x33, 0x34]] 4 = [0x31, 0x32, 0x30FC, 0x33, 0x34] \<and>
   ocr_parse_japanese_license_plate long_mark_plate ''region'' = Some [0x54C1, 0x5DDD] \<and>
   ocr_parse_japanese_license_plate long_mark_plate ''number'' = Some [] \<and>
   matches tier1_pattern (ocr_clean wide_region_plate) \<and>
   re_search tier1_pattern (ocr_clean wide_region_plate) =
     Some [[0x540D, 0x53E4, 0x5C4B, 0x6771, 0x4EAC], [0x20], [0x35, 0x30, 0x30], [0x20], [0x3042],
           [0x20], [0x31, 0x32], [0x2D], [0x33, 0x34]] \<and>
   match_group tier1_pattern
     [[0x540D, 0x53E4, 0x5C4B, 0x6771, 0x4EAC], [0x20], [0x35, 0x30, 0x30], [0x20], [0x3042],
      [0x20], [0x31, 0x32], [0x2D], [0x33, 0x34]] 1 = [0x540D, 0x53E4, 0x5C4B, 0x6771, 0x4EAC] \<and>
   ocr_parse_japanese_license_plate wide_region_plate ''region''
     = Some [0x53E4, 0x5C4B, 0x6771, 0x4EAC]"
proof -
  have "matches tier1_pattern (ocr_clean long_mark_plate)"
    "matches tier1_pattern (ocr_clean wide_region_plate)"
    unfolding re_search_iff[symmetric] by (simp_all add: long_mark_tier1 wide_region_tier1)
  moreover have "match_group tier1_pattern
     [[0x58, 0x54C1, 0x5DDD], [0x20], [0x35, 0x30, 0x30], [0x20], [0x3042], [0x20],
      [0x31, 0x32], [0x30FC], [0x33, 0x34]] 1 = [0x58, 0x54C1, 0x5DDD]"
    "match_group tier1_pattern
     [[0x58, 0x54C1, 0x5DDD], [0x20], [0x35, 0x30, 0x30], [0x20], [0x3042], [0x20],
      [0x31, 0x32], [0x30FC], [0x33, 0x34]] 4 = [0x31, 0x32, 0x30FC, 0x33, 0x34]"
    "match_group tier1_pattern
     [[0x540D, 0x53E4, 0x5C4B, 0x6771, 0x4EAC], [0x20], [0x35, 0x30, 0x30], [0x20], [0x3042],
      [0x20], [0x31, 0x32], [0x2D], [0x33, 0x34]] 1 = [0x540D, 0x53E4, 0x5C4B, 0x6771, 0x4EAC]"
    by (simp_all add: match_group_def tier1_pattern_def)
  ultimately show ?thesis
    by (simp add: long_mark_tier1 wide_region_tier1 long_mark_ocr wide_region_ocr)
qed

lemma length_4_conv: "length d = 4 \<longleftrightarrow> (\<exists>a b c e. d = [a, b, c, e])"
  by (auto simp: length_Suc_conv numeral_eq_Suc)

lemma app_tier2_result:
  assumes n1: "re_search app_pattern1 (app_clean text) = None"
    and m: "re_search app_pattern2 (app_clean text) = Some m"
  shows "\<exists>a b c d. match_group app_pattern2 m 4 = [a, b, c, d] \<and>
           is_digit a \<and> is_digit b \<and> is_digit c \<and> is_digit d \<and>
           app_parse_japanese_license_plate text =
             [''region'' \<mapsto> match_group app_pattern2 m 1, ''classification'' \<mapsto> match_group app_pattern2 m 2,
              ''hiragana'' \<mapsto> match_group app_pattern2 m 3, ''number'' \<mapsto> [a, b, 0x2D, c, d],
              ''full_text'' \<mapsto> app_clean text]"
proof -
  from re_search_sound[OF m] have "fits app_pattern2 m" by simp
  then obtain r w1 c w2 h w3 d where m_eq: "m = [r, w1, c, w2, [h], w3, d]"
    and d: "length d = 4" "list_all is_digit d"
    unfolding app_pattern2_def by (blast dest: tier2_shape)
  from d(1) obtain a b c' e where d_eq: "d = [a, b, c', e]" by (auto simp: length_4_conv)
  have g: "match_group app_pattern2 m 4 = [a, b, c', e]"
    by (simp add: match_group_def app_pattern2_def m_eq d_eq)
  have "app_parse_japanese_license_plate text =
      [''region'' \<mapsto> match_group app_pattern2 m 1, ''classification'' \<mapsto> match_group app_pattern2 m 2,
       ''hiragana'' \<mapsto> match_group app_pattern2 m 3, ''number'' \<mapsto> [a, b, 0x2D, c', e],
       ''full_text'' \<mapsto> app_clean text]"
    using n1 m g by (simp add: app_parse_japanese_license_plate_def result_upd4 del: fun_upd_apply)
  with g d(2) d_eq show ?thesis by simp
qed

lemma ocr_tier2_result:
  assumes n1: "re_search ocr_pattern1 (ocr_clean text) = None"
    and m: "re_search ocr_pattern2 (ocr_clean text) = Some m"
  shows "\<exists>a b c d. match_group ocr_pattern2 m 4 = [a, b, c, d] \<and>
           is_digit a \<and> is_digit b \<and> is_digit c \<and> is_digit d \<and>
           ocr_parse_japanese_license_plate text =
             [''region'' \<mapsto> match_group ocr_pattern2 m 1, ''classification'' \<mapsto> match_group ocr_pattern2 m 2,
              ''hiragana'' \<mapsto> match_group ocr_pattern2 m 3, ''number'' \<mapsto> [a, b, 0x2D, c, d],
              ''full_text'' \<mapsto> ocr_clean text]"
proof -
  from re_search_sound[OF m] have "fits ocr_pattern2 m" by simp
  then obtain r w1 c w2 h w3 d where m_eq: "m = [r, w1, c, w2, [h], w3, d]"
    and d: "length d = 4" "list_all is_digit d"
    unfolding ocr_pattern2_def by (blast dest: tier2_shape)
  from d(1) obtain a b c' e where d_eq: "d = [a, b, c', e]" by (auto simp: length_4_conv)
  have g: "match_group ocr_pattern2 m 4 = [a, b, c', e]"
    by (simp add: match_group_def ocr_pattern2_def m_eq d_eq)
  have "ocr_parse_japanese_license_plate text =
      [''region'' \<mapsto> match_group ocr_pattern2 m 1, ''classification'' \<mapsto> match_group ocr_pattern2 m 2,
       ''hiragana'' \<mapsto> match_group ocr_pattern2 m 3, ''number'' \<mapsto> [a, b, 0x2D, c', e],
       ''full_text'' \<mapsto> ocr_clean text]"
    using n1 m g by (simp add: ocr_parse_japanese_license_plate_def result_upd4 del: fun_upd_apply)
  with g d(2) d_eq show ?thesis by simp
qed

text \<open>
  Claim C4. When the cleaned text does not match the first full pattern and matches the
  second one, whose serial is four digits in a row, the number of the record is the first
  two of these digits, a hyphen-minus and the last two; the other three fields are the
  groups of the match.
\<close>

theorem tier2_synthesis:
  "(\<not> matches app_pattern1 (app_clean text) \<and> matches app_pattern2 (app_clean text) \<longrightarrow>
      (\<exists>m a b c d. re_search app_pattern2 (app_clean text) = Some m \<and>
           match_group app_pattern2 m 4 = [a, b, c, d] \<and>
           is_digit a \<and> is_digit b \<and> is_digit c \<and> is_digit d \<and>
           app_parse_japanese_license_plate text =
             [''region'' \<mapsto> match_group app_pattern2 m 1, ''classification'' \<mapsto> match_group app_pattern2 m 2,
              ''hiragana'' \<mapsto> match_group app_pattern2 m 3, ''number'' \<mapsto> [a, b, 0x2D, c, d],
              ''full_text'' \<mapsto> app_clean text])) \<and>
   (\<not> matches ocr_pattern1 (ocr_clean text) \<and> matches ocr_pattern2 (ocr_clean text) \<longrightarrow>
      (\<exists>m a b c d. re_search ocr_pattern2 (ocr_clean text) = Some m \<and>
           match_group ocr_pattern2 m 4 = [a, b, c, d] \<and>
           is_digit a \<and> is_digit b \<and> is_digit c \<and> is_digit d \<and>
           ocr_parse_japanese_license_plate text =
             [''region'' \<mapsto> match_group ocr_pattern2 m 1, ''classification'' \<mapsto> match_group ocr_pattern2 m 2,
              ''hiragana'' \<mapsto> match_group ocr_pattern2 m 3, ''number'' \<mapsto> [a, b, 0x2D, c, d],
              ''full_text'' \<mapsto> ocr_clean text]))"
proof (intro conjI impI)
  assume "\<not> matches app_pattern1 (app_clean text) \<and> matches app_pattern2 (app_clean text)"
  then obtain m where "re_search app_pattern1 (app_clean text) = None"
    and m: "re_search app_pattern2 (app_clean text) = Some m"
    using re_search_iff re_search_None_iff by blast
  from app_tier2_result[OF this] m
  show "\<exists>m a b c d. re_search app_pattern2 (app_clean text) = Some m \<and>
           match_group app_pattern2 m 4 = [a, b, c, d] \<and>
           is_digit a \<and> is_digit b \<and> is_digit c \<and> is_digit d \<and>
           app_parse_japanese_license_plate text =
             [''region'' \<mapsto> match_group app_pattern2 m 1, ''classification'' \<mapsto> match_group app_pattern2 m 2,
              ''hiragana'' \<mapsto> match_group app_pattern2 m 3, ''number'' \<mapsto> [a, b, 0x2D, c, d],
              ''full_text'' \<mapsto> app_clean text]"
    by blast
next
  assume "\<not> matches ocr_pattern1 (ocr_clean text) \<and> matches ocr_pattern2 (ocr_clean text)"
  then obtain m where "re_search ocr_pattern1 (ocr_clean text) = None"
    and m: "re_search ocr_pattern2 (ocr_clean text) = Some m"
    using re_search_iff re_search_None_iff by blast
  from ocr_tier2_result[OF this] m
  show "\<exists>m a b c d. re_search ocr_pattern2 (ocr_clean text) = Some m \<and>
           match_group ocr_pattern2 m 4 = [a, b, c, d] \<and>
           is_digit a \<and> is_digit b \<and> is_digit c \<and> is_digit d \<and>
           ocr_parse_japanese_license_plate text =
             [''region'' \<mapsto> match_group ocr_pattern2 m 1, ''classification'' \<mapsto> match_group ocr_pattern2 m 2,
              ''hiragana'' \<mapsto> match_group ocr_pattern2 m 3, ''number'' \<mapsto> [a, b, 0x2D, c, d],
              ''full_text'' \<mapsto> ocr_clean text]"
    by blast
qed

lemma plate4_clean:
  "app_clean (plate_with [0x31, 0x32, 0x33, 0x34]) = plate_with [0x31, 0x32, 0x33, 0x34]"
  "ocr_clean (plate_with [0x31, 0x32, 0x33, 0x34]) = plate_with [0x31, 0x32, 0x33, 0x34]"
  by (simp_all add: plate_with_def app_clean_def ocr_clean_def engine_defs class_defs)

lemma plate4_tier1:
  "re_search app_pattern1 (plate_with [0x31, 0x32, 0x33, 0x34]) = None"
  "re_search ocr_pattern1 (plate_with [0x31, 0x32, 0x33, 0x34]) = None"
  by (simp_all add: plate_with_def app_pattern1_def ocr_pattern1_def engine_defs class_defs)

lemma plate4_tier2:
  "re_search app_pattern2 (plate_with [0x31, 0x32, 0x33, 0x34]) =
     Some [[0x54C1, 0x5DDD], [0x20], [0x35, 0x30, 0x30], [0x20], [0x3042], [0x20], [0x31, 0x32, 0x33, 0x34]]"
  "re_search ocr_pattern2 (plate_with [0x31, 0x32, 0x33, 0x34]) =
     Some [[0x54C1, 0x5DDD], [0x20], [0x35, 0x30, 0x30], [0x20], [0x3042], [0x20], [0x31, 0x32, 0x33, 0x34]]"
  by (simp_all add: plate_with_def app_pattern2_def ocr_pattern2_def engine_defs class_defs)

theorem tier2_synthesis_witness:
  "\<not> matches app_pattern1 (app_clean (plate_with [0x31, 0x32, 0x33, 0x34])) \<and>
   matches app_pattern2 (app_clean (plate_with [0x31, 0x32, 0x33, 0x34])) \<and>
   \<not> matches ocr_pattern1 (ocr_clean (plate_with [0x31, 0x32, 0x33, 0x34])) \<and>
   matches ocr_pattern2 (ocr_clean (plate_with [0x31, 0x32, 0x33, 0x34])) \<and>
   app_parse_japanese_license_plate (plate_with [0x31, 0x32, 0x33, 0x34]) ''number''
     = Some [0x31, 0x32, 0x2D, 0x33, 0x34] \<and>
   ocr_parse_japanese_license_plate (plate_with [0x31, 0x32, 0x33, 0x34]) ''number''
     = Some [0x31, 0x32, 0x2D, 0x33, 0x34]"
proof -
  let ?t = "plate_with [0x31, 0x32, 0x33, 0x34]"
  have a: "\<not> matches app_pattern1 (app_clean ?t)" "matches app_pattern2 (app_clean ?t)"
    using re_search_None_iff[of app_pattern1 ?t] re_search_iff[of app_pattern2 ?t]
    by (simp_all add: plate4_clean plate4_tier1 plate4_tier2)
  have b: "\<not> matches ocr_pattern1 (ocr_clean ?t)" "matches ocr_pattern2 (ocr_clean ?t)"
    using re_search_None_iff[of ocr_pattern1 ?t] re_search_iff[of ocr_pattern2 ?t]
    by (simp_all add: plate4_clean plate4_tier1 plate4_tier2)
  from conjunct1[OF tier2_synthesis[of ?t], rule_format, OF conjI[OF a]]
  obtain m x y z w where
    m: "re_search app_pattern2 (app_clean ?t) = Some m" and
    g: "match_group app_pattern2 m 4 = [x, y, z, w]" and
    pm: "app_parse_japanese_license_plate ?t ''number'' = Some [x, y, 0x2D, z, w]"
    by auto
  from m have "m = [[0x54C1, 0x5DDD], [0x20], [0x35, 0x30, 0x30], [0x20], [0x3042], [0x20], [0x31, 0x32, 0x33, 0x34]]"
    by (simp add: plate4_clean plate4_tier2)
  with g have "[x, y, z, w] = [0x31, 0x32, 0x33, 0x34]"
    by (simp add: match_group_def app_pattern2_def)
  with pm have c: "app_parse_japanese_license_plate ?t ''number'' = Some [0x31, 0x32, 0x2D, 0x33, 0x34]"
    by simp
  from conjunct2[OF tier2_synthesis[of ?t], rule_format, OF conjI[OF b]]
  obtain m' x' y' z' w' where
    m': "re_search ocr_pattern2 (ocr_clean ?t) = Some m'" and
    g': "match_group ocr_pattern2 m' 4 = [x', y', z', w']" and
    pm': "ocr_parse_japanese_license_plate ?t ''number'' = Some [x', y', 0x2D, z', w']"
    by auto
  from m' have "m' = [[0x54C1, 0x5DDD], [0x20], [0x35, 0x30, 0x30], [0x20], [0x3042], [0x20], [0x31, 0x32, 0x33, 0x34]]"
    by (simp add: plate4_clean plate4_tier2)
  with g' have "[x', y', z', w'] = [0x31, 0x32, 0x33, 0x34]"
    by (simp add: match_group_def ocr_pattern2_def)
  with pm' have d: "ocr_parse_japanese_license_plate ?t ''number'' = Some [0x31, 0x32, 0x2D, 0x33, 0x34]"
    by simp
  from a b c d show ?thesis by simp
qed

lemma length_2_conv: "length d = 2 \<longleftrightarrow> (\<exists>a b. d = [a, b])"
  by (auto simp: length_Suc_conv numeral_eq_Suc)

lemma length_1_2_conv: "1 \<le> length d \<and> length d \<le> 2 \<longleftrightarrow> (\<exists>a. d = [a]) \<or> (\<exists>a b. d = [a, b])"
proof (cases d)
  case Nil
  then show ?thesis by simp
next
  case (Cons a d')
  then show ?thesis by (cases d') (auto simp: length_Suc_conv)
qed

lemma serial_shapeI:
  assumes "1 \<le> length d1" "length d1 \<le> 2" "list_all D d1" "S x" "length d2 = 2" "list_all D d2"
  shows "serial_shape D S (d1 @ [x] @ d2)"
proof -
  from assms(5) obtain b c where d2: "d2 = [b, c]" by (auto simp: length_2_conv)
  from assms(1,2) consider a where "d1 = [a]" | a a' where "d1 = [a, a']"
    using length_1_2_conv[of d1] by blast
  then show ?thesis using assms(3,4,6) d2 by cases auto
qed

lemma tier1_serial:
  assumes "fits [Piece R 1 (Some n) 1, Piece W1 0 None 0, Piece C 3 (Some 3) 2, Piece W2 0 None 0,
     Piece H 1 (Some 1) 3, Piece W3 0 None 0,
     Piece D 1 (Some 2) 4, Piece S 1 (Some 1) 4, Piece D 2 (Some 2) 4] m"
    and "s = pre @ concat m @ post"
  shows "serial_shape D S (match_group [Piece R 1 (Some n) 1, Piece W1 0 None 0, Piece C 3 (Some 3) 2, Piece W2 0 None 0,
              Piece H 1 (Some 1) 3, Piece W3 0 None 0,
              Piece D 1 (Some 2) 4, Piece S 1 (Some 1) 4, Piece D 2 (Some 2) 4] m 4) \<and>
         occurs (match_group [Piece R 1 (Some n) 1, Piece W1 0 None 0, Piece C 3 (Some 3) 2, Piece W2 0 None 0,
              Piece H 1 (Some 1) 3, Piece W3 0 None 0,
              Piece D 1 (Some 2) 4, Piece S 1 (Some 1) 4, Piece D 2 (Some 2) 4] m 4) s"
proof -
  from tier1_shape[OF assms(1)] obtain r w1 c w2 h w3 d1 x d2 where
    m: "m = [r, w1, c, w2, [h], w3, d1, [x], d2]" and
    d: "1 \<le> length d1" "length d1 \<le> 2" "list_all D d1" "S x" "length d2 = 2" "list_all D d2"
    by blast
  have "s = (pre @ r @ w1 @ c @ w2 @ [h] @ w3) @ (d1 @ [x] @ d2) @ post"
    using assms(2) m by simp
  then have "occurs (d1 @ [x] @ d2) s" unfolding occurs_def by blast
  moreover have "serial_shape D S (d1 @ [x] @ d2)"
    using d by (rule serial_shapeI)
  ultimately show ?thesis unfolding m by (simp add: match_group_def)
qed











section \<open>Whitespace normalization\<close>

lemma is_space_0x20: "is_space 0x20"
  by (simp add: is_space_def in_ranges_def space_ranges_def)

lemma dropWhile_append_keep:
  "ys \<noteq> [] \<Longrightarrow> \<not> P (hd ys) \<Longrightarrow> dropWhile P (xs @ ys) = dropWhile P xs @ ys"
  by (induction xs) (auto simp: neq_Nil_conv)

lemma py_rstrip_Nil_iff: "py_rstrip y = [] \<longleftrightarrow> list_all is_space y"
  by (auto simp: py_rstrip_def dropWhile_eq_Nil_conv list_all_iff)

lemma py_rstrip_Cons:
  "py_rstrip (a # y) = (if py_rstrip y = [] \<and> is_space a then [] else a # py_rstrip y)"
proof (cases "list_all is_space y")
  case True
  then have "dropWhile is_space (rev y @ [a]) = dropWhile is_space [a]"
    by (simp add: dropWhile_append list_all_iff)
  moreover from True have "py_rstrip y = []" by (simp add: py_rstrip_Nil_iff)
  ultimately show ?thesis by (simp add: py_rstrip_def)
next
  case False
  then have "dropWhile is_space (rev y @ [a]) = dropWhile is_space (rev y) @ [a]"
    by (auto simp: dropWhile_append list_all_iff)
  moreover from False have "py_rstrip y \<noteq> []" by (simp add: py_rstrip_Nil_iff)
  ultimately show ?thesis by (simp add: py_rstrip_def)
qed

lemma py_rstrip_append_word:
  "list_all (\<lambda>c. \<not> is_space c) w \<Longrightarrow> py_rstrip (w @ t) = w @ py_rstrip t"
  by (induction w) (auto simp: py_rstrip_Cons)

lemma re_sub_ws_word:
  "list_all (\<lambda>c. \<not> is_space c) w \<Longrightarrow> re_sub_ws (w @ t) = w @ re_sub_ws t"
  by (induction w) auto

lemma strip_sub_lstrip:
  "py_strip (re_sub_ws s) = py_strip (re_sub_ws (dropWhile is_space s))"
proof (cases s)
  case Nil
  then show ?thesis by simp
next
  case (Cons c cs)
  show ?thesis
  proof (cases "is_space c")
    case True
    have "py_strip (0x20 # x) = py_strip x" for x
      by (simp add: py_strip_def py_lstrip_def is_space_0x20)
    with True Cons show ?thesis by simp
  next
    case False
    with Cons show ?thesis by simp
  qed
qed

lemma py_split_Nil_iff: "py_split s = [] \<longleftrightarrow> dropWhile is_space s = []"
  by (subst py_split.simps) (simp add: Let_def)

lemma sub_tail:
  assumes "rest = [] \<or> is_space (hd rest)"
  shows "py_rstrip (re_sub_ws rest) =
           (if py_split rest = [] then [] else 0x20 # py_strip (re_sub_ws rest))"
proof (cases rest)
  case Nil
  then show ?thesis by (simp add: py_rstrip_def py_split_Nil_iff)
next
  case (Cons c cs)
  with assms have c: "is_space c" by simp
  let ?r = "dropWhile is_space cs"
  have sub: "re_sub_ws rest = 0x20 # re_sub_ws ?r" using Cons c by simp
  have dr: "dropWhile is_space rest = ?r" using Cons c by simp
  show ?thesis
  proof (cases ?r)
    case Nil
    then have "py_split rest = []" using dr by (simp add: py_split_Nil_iff)
    moreover have "py_rstrip (re_sub_ws rest) = []"
      using sub Nil by (simp add: py_rstrip_Cons is_space_0x20 py_rstrip_def)
    ultimately show ?thesis by simp
  next
    case (Cons x xs)
    then have x: "\<not> is_space x" using hd_dropWhile[of is_space cs] by (metis list.sel(1) list.distinct(1))
    have ne: "py_split rest \<noteq> []" using dr Cons by (simp add: py_split_Nil_iff)
    have sr: "re_sub_ws ?r = x # re_sub_ws xs" using Cons x by simp
    have "py_strip (re_sub_ws rest) = py_strip (re_sub_ws ?r)"
      using strip_sub_lstrip[of rest] dr by simp
    also have "\<dots> = py_rstrip (re_sub_ws ?r)"
      using sr x by (simp add: py_strip_def py_lstrip_def)
    finally have st: "py_strip (re_sub_ws rest) = py_rstrip (re_sub_ws ?r)" .
    have "py_rstrip (re_sub_ws ?r) \<noteq> []"
      using sr x by (simp add: py_rstrip_Cons)
    then have "py_rstrip (re_sub_ws rest) = 0x20 # py_rstrip (re_sub_ws ?r)"
      using sub by (simp add: py_rstrip_Cons)
    with st ne show ?thesis by simp
  qed
qed

lemma py_join_Cons: "py_join sep (x # xs) = (if xs = [] then x else x @ sep @ py_join sep xs)"
  by (cases xs) auto

lemma join_split_eq_strip_sub:
  "py_join [0x20] (py_split s) = py_strip (re_sub_ws s)"
proof (induction s rule: py_split.induct)
  case (1 s)
  let ?r = "dropWhile is_space s"
  show ?case
  proof (cases "?r = []")
    case True
    then have "py_split s = []" by (simp add: py_split_Nil_iff)
    moreover have "py_strip (re_sub_ws s) = []"
      using strip_sub_lstrip[of s] True by (simp add: py_strip_def py_lstrip_def py_rstrip_def)
    ultimately show ?thesis by simp
  next
    case False
    let ?w = "takeWhile (\<lambda>c. \<not> is_space c) ?r"
    let ?rest = "dropWhile (\<lambda>c. \<not> is_space c) ?r"
    from False have hd: "\<not> is_space (hd ?r)" using hd_dropWhile by metis
    from False hd have wne: "?w \<noteq> []" by (cases ?r) auto
    have wall: "list_all (\<lambda>c. \<not> is_space c) ?w"
      by (auto simp: list_all_iff dest: set_takeWhileD)
    have rest: "?rest = [] \<or> is_space (hd ?rest)"
      using hd_dropWhile[of "\<lambda>c. \<not> is_space c" ?r] by auto
    have split: "py_split s = ?w # py_split ?rest"
      using False by (subst py_split.simps) (simp add: Let_def)
    have ih: "py_join [0x20] (py_split ?rest) = py_strip (re_sub_ws ?rest)"
      using 1[OF refl False] .
    have "py_strip (re_sub_ws s) = py_strip (re_sub_ws ?r)" by (rule strip_sub_lstrip)
    also have "?r = ?w @ ?rest" by simp
    also have "re_sub_ws (?w @ ?rest) = ?w @ re_sub_ws ?rest"
      using wall by (rule re_sub_ws_word)
    also have "py_strip (?w @ re_sub_ws ?rest) = py_rstrip (?w @ re_sub_ws ?rest)"
    proof -
      from wne wall have "\<not> is_space (hd ?w)" by (cases ?w) auto
      with wne have "dropWhile is_space (?w @ re_sub_ws ?rest) = ?w @ re_sub_ws ?rest"
        by (cases ?w) auto
      then show ?thesis by (simp add: py_strip_def py_lstrip_def)
    qed
    also have "\<dots> = ?w @ py_rstrip (re_sub_ws ?rest)"
      using wall by (rule py_rstrip_append_word)
    also have "\<dots> = ?w @ (if py_split ?rest = [] then [] else 0x20 # py_strip (re_sub_ws ?rest))"
      using sub_tail[OF rest] by simp
    also have "\<dots> = py_join [0x20] (?w # py_split ?rest)"
      using ih by (simp add: py_join_Cons)
    finally show ?thesis using split by simp
  qed
qed

lemma ocr_clean_eq: "ocr_clean text = app_clean text"
  by (simp add: ocr_clean_def app_clean_def join_split_eq_strip_sub)

section \<open>What cleaning preserves\<close>

lemma not_digit_0x20: "\<not> is_digit 0x20"
  by (simp add: is_digit_def in_ranges_def digit_ranges_def)

lemma digit_not_space: "is_digit c \<Longrightarrow> \<not> is_space c"
  by (auto simp: is_digit_def is_space_def in_ranges_def digit_ranges_def space_ranges_def)

lemma hira_not_digit: "hira_range c \<Longrightarrow> \<not> is_digit c"
  by (auto simp: hira_range_def is_digit_def in_ranges_def digit_ranges_def)

lemma hira_not_space: "hira_range c \<Longrightarrow> \<not> is_space c"
  by (auto simp: hira_range_def is_space_def in_ranges_def space_ranges_def)

lemma sep3_not_digit: "sep3 c \<Longrightarrow> \<not> is_digit c"
  by (auto simp: sep3_def is_digit_def in_ranges_def digit_ranges_def)

lemma sep2_sep3: "sep2 c \<Longrightarrow> sep3 c"
  by (auto simp: sep2_def sep3_def)

lemma is_space_nl: "is_space 0xA" "is_space 0xD"
  by (simp_all add: is_space_def in_ranges_def space_ranges_def)

lemma py_replace_append: "py_replace a b (xs @ ys) = py_replace a b xs @ py_replace a b ys"
  by (simp add: py_replace_def)

lemma py_replace_id: "a \<notin> set xs \<Longrightarrow> py_replace a b xs = xs"
  by (induction xs) (auto simp: py_replace_def)

lemma set_py_replace: "set (py_replace a b xs) \<subseteq> insert b (set xs)"
  by (auto simp: py_replace_def)

lemma set_re_sub_ws: "set (re_sub_ws s) \<subseteq> insert 0x20 (set s)"
proof (induction s rule: re_sub_ws.induct)
  case 1
  then show ?case by simp
next
  case (2 c cs)
  show ?case
  proof (cases "is_space c")
    case True
    with 2 have "set (re_sub_ws (dropWhile is_space cs)) \<subseteq> insert 0x20 (set (dropWhile is_space cs))"
      by simp
    also have "\<dots> \<subseteq> insert 0x20 (set cs)"
      using set_dropWhileD by fastforce
    finally show ?thesis using True by auto
  next
    case False
    with 2 show ?thesis by auto
  qed
qed

lemma re_sub_ws_append:
  "w \<noteq> [] \<Longrightarrow> \<not> is_space (hd w) \<Longrightarrow> re_sub_ws (pre @ w) = re_sub_ws pre @ re_sub_ws w"
proof (induction pre rule: re_sub_ws.induct)
  case 1
  then show ?case by simp
next
  case (2 c cs)
  show ?case
  proof (cases "is_space c")
    case True
    have "dropWhile is_space (cs @ w) = dropWhile is_space cs @ w"
      using 2(3,4) by (rule dropWhile_append_keep)
    with 2 True show ?thesis by simp
  next
    case False
    with 2 show ?thesis by simp
  qed
qed

lemma py_rstrip_append: "py_rstrip t \<noteq> [] \<Longrightarrow> py_rstrip (x @ t) = x @ py_rstrip t"
  by (induction x) (auto simp: py_rstrip_Cons)

lemma set_py_rstrip: "set (py_rstrip t) \<subseteq> set t"
  unfolding py_rstrip_def using set_dropWhileD by fastforce

text \<open>A run of characters that are not whitespace survives cleaning in one piece.\<close>

lemma app_clean_word:
  assumes w: "w \<noteq> []" "list_all (\<lambda>c. \<not> is_space c) w"
  shows "\<exists>pre' post'. app_clean (pre @ w @ post) = pre' @ w @ post' \<and>
           set pre' \<subseteq> insert 0x20 (set pre) \<and> set post' \<subseteq> insert 0x20 (set post)"
proof -
  let ?rep = "\<lambda>s. py_replace 0xD 0x20 (py_replace 0xA 0x20 s)"
  have nl: "0xA \<notin> set w" "0xD \<notin> set w"
    using w(2) is_space_nl by (auto simp: list_all_iff)
  have rep: "?rep (pre @ w @ post) = ?rep pre @ w @ ?rep post"
    using nl by (simp add: py_replace_append py_replace_id)
  have srep: "set (?rep s) \<subseteq> insert 0x20 (set s)" for s
    using set_py_replace[of "0xD" "0x20" "py_replace 0xA 0x20 s"] set_py_replace[of "0xA" "0x20" s]
    by auto
  from w have hd: "\<not> is_space (hd w)" by (cases w) auto
  let ?a = "re_sub_ws (?rep pre)" and ?b = "re_sub_ws (?rep post)"
  have sub: "re_sub_ws (?rep pre @ w @ ?rep post) = ?a @ w @ ?b"
  proof -
    have "re_sub_ws (?rep pre @ (w @ ?rep post)) = ?a @ re_sub_ws (w @ ?rep post)"
      using w(1) hd by (intro re_sub_ws_append) auto
    then show ?thesis using w(2) by (simp add: re_sub_ws_word)
  qed
  have l: "py_lstrip (?a @ w @ ?b) = dropWhile is_space ?a @ w @ ?b"
    unfolding py_lstrip_def using w(1) hd by (intro dropWhile_append_keep) auto
  have "py_rstrip (w @ ?b) = w @ py_rstrip ?b" using w(2) by (rule py_rstrip_append_word)
  then have r: "py_rstrip (dropWhile is_space ?a @ w @ ?b) = dropWhile is_space ?a @ w @ py_rstrip ?b"
    using w(1) py_rstrip_append[of "w @ ?b" "dropWhile is_space ?a"] by simp
  have cl: "app_clean (pre @ w @ post) = dropWhile is_space ?a @ w @ py_rstrip ?b"
    unfolding app_clean_def py_strip_def rep sub l r ..
  have "set (dropWhile is_space ?a) \<subseteq> set ?a" using set_dropWhileD by fastforce
  also have "\<dots> \<subseteq> insert 0x20 (set (?rep pre))" by (rule set_re_sub_ws)
  also have "\<dots> \<subseteq> insert 0x20 (set pre)" using srep[of pre] by auto
  finally have p: "set (dropWhile is_space ?a) \<subseteq> insert 0x20 (set pre)" .
  have "set (py_rstrip ?b) \<subseteq> set ?b" by (rule set_py_rstrip)
  also have "\<dots> \<subseteq> insert 0x20 (set (?rep post))" by (rule set_re_sub_ws)
  also have "\<dots> \<subseteq> insert 0x20 (set post)" using srep[of post] by auto
  finally have q: "set (py_rstrip ?b) \<subseteq> insert 0x20 (set post)" .
  from cl p q show ?thesis by blast
qed

lemma app_clean_digit_run:
  assumes "d \<noteq> []" "list_all is_digit d"
    and "list_all (\<lambda>c. \<not> is_digit c) pre" "list_all (\<lambda>c. \<not> is_digit c) post"
  shows "\<exists>pre' post'. app_clean (pre @ d @ post) = pre' @ d @ post' \<and>
           list_all (\<lambda>c. \<not> is_digit c) pre' \<and> list_all (\<lambda>c. \<not> is_digit c) post'"
proof -
  have "list_all (\<lambda>c. \<not> is_space c) d"
    using assms(2) digit_not_space by (auto simp: list_all_iff)
  from app_clean_word[OF assms(1) this, of pre post] obtain pre' post' where
    c: "app_clean (pre @ d @ post) = pre' @ d @ post'" and
    s: "set pre' \<subseteq> insert 0x20 (set pre)" "set post' \<subseteq> insert 0x20 (set post)"
    by blast
  have "list_all (\<lambda>c. \<not> is_digit c) pre'" "list_all (\<lambda>c. \<not> is_digit c) post'"
    using s assms(3,4) not_digit_0x20 by (auto simp: list_all_iff)
  with c show ?thesis by blast
qed

section \<open>Texts with a single run of digits\<close>

lemma nth_app_mid:
  assumes "length pre \<le> j" "j < length pre + length d"
  shows "(pre @ d @ post) ! j = d ! (j - length pre)"
proof -
  from assms(1) have "\<not> j < length pre" by simp
  then have "(pre @ d @ post) ! j = (d @ post) ! (j - length pre)"
    by (simp only: nth_append if_False)
  also from assms have "j - length pre < length d" by linarith
  then have "(d @ post) ! (j - length pre) = d ! (j - length pre)"
    by (simp only: nth_append if_True)
  finally show ?thesis .
qed

lemma nth_app_post:
  assumes "length pre + length d \<le> i"
  shows "(pre @ d @ post) ! i = post ! (i - length pre - length d)"
proof -
  from assms have "\<not> i < length pre" by simp
  then have "(pre @ d @ post) ! i = (d @ post) ! (i - length pre)"
    by (simp only: nth_append if_False)
  also from assms have "\<not> i - length pre < length d" by linarith
  then have "(d @ post) ! (i - length pre) = post ! (i - length pre - length d)"
    by (simp only: nth_append if_False)
  finally show ?thesis .
qed

lemma digit_run_pos:
  assumes "digit_run s pre d post" "i < length s" "is_digit (s ! i)"
  shows "length pre \<le> i \<and> i < length pre + length d"
proof (rule ccontr)
  assume n: "\<not> (length pre \<le> i \<and> i < length pre + length d)"
  from assms(1) have s: "s = pre @ d @ post" and
    np: "\<And>c. c \<in> set pre \<Longrightarrow> \<not> is_digit c" and nq: "\<And>c. c \<in> set post \<Longrightarrow> \<not> is_digit c"
    by (auto simp: digit_run_def list_all_iff)
  from n consider "i < length pre" | "length pre + length d \<le> i" by linarith
  then show False
  proof cases
    case 1
    then have "s ! i = pre ! i" using s by (simp add: nth_append)
    with 1 np assms(3) show False by (metis nth_mem)
  next
    case 2
    then have "s ! i = post ! (i - length pre - length d)" using s by (simp only: nth_app_post)
    moreover have "i - length pre - length d < length post" using 2 assms(2) s by simp
    ultimately show False using nq assms(3) by (metis nth_mem)
  qed
qed

lemma digit_run_mid:
  assumes "digit_run s pre d post" "length pre \<le> j" "j < length pre + length d"
  shows "is_digit (s ! j)"
proof -
  from assms(1) have s: "s = pre @ d @ post" and dd: "\<And>c. c \<in> set d \<Longrightarrow> is_digit c"
    by (auto simp: digit_run_def list_all_iff)
  have "s ! j = d ! (j - length pre)" using s nth_app_mid[OF assms(2,3)] by simp
  moreover have "j - length pre < length d" using assms(2,3) by linarith
  ultimately show ?thesis using dd by (metis nth_mem)
qed

text \<open>Between two digits of the text there is no other character.\<close>

lemma digit_run_no_gap:
  assumes r: "digit_run s pre d post"
    and s: "s = a @ [x] @ b @ [y] @ c @ [z] @ e"
    and x: "is_digit x" and z: "is_digit z"
  shows "is_digit y"
proof -
  let ?i = "length a" and ?j = "length a + 1 + length b" and ?k = "length a + 1 + length b + 1 + length c"
  have si: "s ! ?i = x" using s by (simp add: nth_append)
  have "length (a @ [x] @ b) = ?j" by simp
  moreover have "s = (a @ [x] @ b) @ y # (c @ [z] @ e)" using s by simp
  ultimately have sj: "s ! ?j = y" by (metis nth_append_length)
  have "length (a @ [x] @ b @ [y] @ c) = ?k" by simp
  moreover have "s = (a @ [x] @ b @ [y] @ c) @ z # e" using s by simp
  ultimately have sk: "s ! ?k = z" by (metis nth_append_length)
  have len: "?i < length s" "?k < length s" using s by simp_all
  from digit_run_pos[OF r len(1)] si x have "length pre \<le> ?i" by simp
  moreover from digit_run_pos[OF r len(2)] sk z have "?k < length pre + length d" by simp
  ultimately have "length pre \<le> ?j" "?j < length pre + length d" by linarith+
  from digit_run_mid[OF r this] sj show ?thesis by simp
qed

text \<open>A substring of digits lies inside the run.\<close>

lemma digit_run_sub:
  assumes r: "digit_run s pre d post"
    and s: "s = u @ e @ v" and e: "e \<noteq> []" "list_all is_digit e"
  shows "length pre \<le> length u \<and> length u + length e \<le> length pre + length d"
proof -
  let ?i = "length u" and ?k = "length u + length e - 1"
  from e have he: "is_digit (hd e)" "is_digit (last e)" by (auto simp: list_all_iff)
  have si: "s ! ?i = hd e" using s e(1) by (cases e) (simp_all add: nth_append)
  have k: "length u \<le> ?k" "?k < length u + length e" using e(1) by (cases e; simp)+
  have "s ! ?k = e ! (?k - length u)" using s nth_app_mid[OF k, of v] by simp
  also have "?k - length u = length e - 1" using e(1) by (cases e) simp_all
  also have "e ! (length e - 1) = last e" using e(1) by (simp add: last_conv_nth)
  finally have sk: "s ! ?k = last e" .
  have len: "?i < length s" "?k < length s" using s e(1) by (cases e; simp)+
  from digit_run_pos[OF r len(1)] si he have "length pre \<le> ?i" by simp
  moreover from digit_run_pos[OF r len(2)] sk he have "?k < length pre + length d" by simp
  ultimately show ?thesis using e(1) by (cases e) auto
qed

lemma digit_run_sub_eq:
  assumes r: "digit_run s pre d post"
    and s: "s = u @ e @ v" and e: "list_all is_digit e" "length e = length d" "d \<noteq> []"
  shows "e = d"
proof -
  from e have ne: "e \<noteq> []" by auto
  from digit_run_sub[OF r s ne e(1)] e(2) have l: "length u = length pre" by linarith
  from r have s': "s = pre @ d @ post" by (simp add: digit_run_def)
  from s s' l have "u = pre" by (metis append_eq_append_conv)
  with s s' have "e @ v = d @ post" by simp
  with e(2) show ?thesis by (metis append_eq_append_conv)
qed

section \<open>The partial matching\<close>

lemma region_loop_other: "k \<noteq> ''region'' \<Longrightarrow> region_loop rs c r k = r k"
  by (induction rs) auto

lemma app_hiragana_step_other: "k \<noteq> ''hiragana'' \<Longrightarrow> app_hiragana_step c r k = r k"
  by (auto simp: app_hiragana_step_def split: option.splits)

lemma ocr_hiragana_step_other: "k \<noteq> ''hiragana'' \<Longrightarrow> ocr_hiragana_step c r k = r k"
  by (auto simp: ocr_hiragana_step_def split: option.splits)

lemma fits_single:
  "fits [Piece P a (Some b) g] m \<longleftrightarrow> (\<exists>e. m = [e] \<and> a \<le> length e \<and> length e \<le> b \<and> list_all P e)"
  by (auto simp: fits_Cons fits_Nil fits1_bounded)

lemma search_single:
  assumes "re_search [Piece P n (Some n) 1] c = Some m"
  shows "\<exists>e u v. m = [e] \<and> length e = n \<and> list_all P e \<and> c = u @ e @ v \<and>
           match_group [Piece P n (Some n) 1] m 1 = e"
proof -
  from re_search_sound[OF assms] obtain u v where
    f: "fits [Piece P n (Some n) 1] m" and c: "c = u @ concat m @ v" by blast
  from f obtain e where "m = [e]" "length e = n" "list_all P e"
    by (auto simp: fits_single)
  with c show ?thesis by (auto simp: match_group_def)
qed

lemma serial_pattern_shape:
  assumes "fits [Piece D 1 (Some 2) 1, Piece S 1 (Some 1) 1, Piece D 2 (Some 2) 1] m"
  shows "\<exists>d1 x d2. m = [d1, [x], d2] \<and> 1 \<le> length d1 \<and> length d1 \<le> 2 \<and> list_all D d1 \<and> S x \<and>
           length d2 = 2 \<and> list_all D d2"
  using assms
  by (simp only: fits_Cons fits_Nil fits1_one) (auto simp: fits1_bounded)

lemma search_serial:
  assumes "re_search [Piece D 1 (Some 2) 1, Piece S 1 (Some 1) 1, Piece D 2 (Some 2) 1] c = Some m"
  shows "match_group [Piece D 1 (Some 2) 1, Piece S 1 (Some 1) 1, Piece D 2 (Some 2) 1] m 1 = concat m \<and>
         serial_shape D S (concat m) \<and> occurs (concat m) c"
proof -
  from re_search_sound[OF assms] obtain u v where
    f: "fits [Piece D 1 (Some 2) 1, Piece S 1 (Some 1) 1, Piece D 2 (Some 2) 1] m"
    and c: "c = u @ concat m @ v" by blast
  from serial_pattern_shape[OF f] obtain d1 x d2 where m: "m = [d1, [x], d2]" and
    d: "1 \<le> length d1" "length d1 \<le> 2" "list_all D d1" "S x" "length d2 = 2" "list_all D d2"
    by blast
  have "serial_shape D S (d1 @ [x] @ d2)" using d by (rule serial_shapeI)
  moreover have "occurs (concat m) c" using c unfolding occurs_def by blast
  ultimately show ?thesis using m by (simp add: match_group_def)
qed

lemma app_number_loop_eq:
  "app_number_loop (enumerate 0 app_number_patterns) c r =
     (case re_search (app_number_patterns ! 0) c of
        Some m \<Rightarrow> r(''number'' \<mapsto> concat m)
      | None \<Rightarrow>
          (case re_search (app_number_patterns ! 1) c of
             Some m \<Rightarrow> r(''number'' \<mapsto> take 2 (concat m) @ [0x2D] @ drop 2 (concat m))
           | None \<Rightarrow>
               (case re_search (app_number_patterns ! 2) c of
                  Some m \<Rightarrow> r(''classification'' \<mapsto> concat m)
                | None \<Rightarrow> r)))"
proof -
  let ?p0 = "[Piece is_digit 1 (Some 2) 1, Piece sep3 1 (Some 1) 1, Piece is_digit 2 (Some 2) 1]"
  let ?p1 = "[Piece is_digit 4 (Some 4) 1]"
  let ?p2 = "[Piece is_digit 3 (Some 3) 1]"
  have e: "enumerate 0 app_number_patterns = [(0, ?p0), (1, ?p1), (2, ?p2)]"
    by (simp add: app_number_patterns_def)
  have n: "app_number_patterns ! 0 = ?p0" "app_number_patterns ! 1 = ?p1" "app_number_patterns ! 2 = ?p2"
    by (simp_all add: app_number_patterns_def)
  show ?thesis
  proof (cases "re_search ?p0 c")
    case (Some m)
    from search_serial[OF Some] have "match_group ?p0 m 1 = concat m" by simp
    with Some show ?thesis unfolding e n by (simp del: fun_upd_apply)
  next
    case p0: None
    show ?thesis
    proof (cases "re_search ?p1 c")
      case (Some m)
      from search_single[OF Some] obtain d where "m = [d]" "length d = 4" "match_group ?p1 m 1 = d"
        by blast
      with Some p0 show ?thesis unfolding e n by (simp del: fun_upd_apply)
    next
      case p1: None
      show ?thesis
      proof (cases "re_search ?p2 c")
        case (Some m)
        from search_single[OF Some] obtain d where "m = [d]" "length d = 3" "match_group ?p2 m 1 = d"
          by blast
        with Some p0 p1 show ?thesis unfolding e n by (simp del: fun_upd_apply)
      next
        case None
        with p0 p1 show ?thesis unfolding e n by (simp del: fun_upd_apply)
      qed
    qed
  qed
qed


lemma run_no_tier1:
  assumes r: "digit_run s pre d post"
    and f: "fits [Piece R 1 (Some n) 1, Piece W1 0 None 0, Piece is_digit 3 (Some 3) 2,
       Piece W2 0 None 0, Piece H 1 (Some 1) 3, Piece W3 0 None 0,
       Piece is_digit 1 (Some 2) 4, Piece S 1 (Some 1) 4, Piece is_digit 2 (Some 2) 4] m"
    and s: "s = u @ concat m @ v"
    and H: "\<And>c. H c \<Longrightarrow> \<not> is_digit c"
  shows False
proof -
  from tier1_shape[OF f] obtain r' w1 c w2 h w3 d1 x d2 where
    m: "m = [r', w1, c, w2, [h], w3, d1, [x], d2]" and
    c: "length c = 3" "list_all is_digit c" and h: "H h" and
    d1: "1 \<le> length d1" "list_all is_digit d1"
    by blast
  from c obtain c1 c' where c_eq: "c = c1 # c'" and c1: "is_digit c1" by (cases c) auto
  from d1 obtain e1 d1' where d_eq: "d1 = e1 # d1'" and e1: "is_digit e1" by (cases d1) auto
  have "s = (u @ r' @ w1) @ [c1] @ (c' @ w2) @ [h] @ w3 @ [e1] @ (d1' @ [x] @ d2 @ v)"
    using s m c_eq d_eq by simp
  from digit_run_no_gap[OF r this c1 e1] H[OF h] show False by simp
qed

lemma run_no_tier2:
  assumes r: "digit_run s pre d post"
    and f: "fits [Piece R 1 (Some n) 1, Piece W1 0 None 0, Piece is_digit 3 (Some 3) 2,
       Piece W2 0 None 0, Piece H 1 (Some 1) 3, Piece W3 0 None 0,
       Piece is_digit 4 (Some 4) 4] m"
    and s: "s = u @ concat m @ v"
    and H: "\<And>c. H c \<Longrightarrow> \<not> is_digit c"
  shows False
proof -
  from tier2_shape[OF f] obtain r' w1 c w2 h w3 d1 where
    m: "m = [r', w1, c, w2, [h], w3, d1]" and
    c: "length c = 3" "list_all is_digit c" and h: "H h" and
    d1: "length d1 = 4" "list_all is_digit d1"
    by blast
  from c obtain c1 c' where c_eq: "c = c1 # c'" and c1: "is_digit c1" by (cases c) auto
  from d1 obtain e1 d1' where d_eq: "d1 = e1 # d1'" and e1: "is_digit e1" by (cases d1) auto
  have "s = (u @ r' @ w1) @ [c1] @ (c' @ w2) @ [h] @ w3 @ [e1] @ (d1' @ v)"
    using s m c_eq d_eq by simp
  from digit_run_no_gap[OF r this c1 e1] H[OF h] show False by simp
qed

lemma run_no_separator:
  assumes r: "digit_run s pre d post"
    and s: "s = u @ d1 @ [x] @ d2 @ v"
    and d: "d1 \<noteq> []" "list_all is_digit d1" "d2 \<noteq> []" "list_all is_digit d2"
  shows "is_digit x"
proof -
  from d(1,2) obtain b l where d1: "d1 = b @ [l]" and l: "is_digit l"
    by (cases d1 rule: rev_cases) auto
  from d(3,4) obtain e t where d2: "d2 = e # t" and e: "is_digit e" by (cases d2) auto
  have "s = (u @ b) @ [l] @ [] @ [x] @ [] @ [e] @ (t @ v)" using s d1 d2 by simp
  from digit_run_no_gap[OF r this l e] show ?thesis .
qed

lemma run_no_serial:
  assumes r: "digit_run s pre d post"
    and f: "fits [Piece is_digit 1 (Some 2) 1, Piece S 1 (Some 1) 1, Piece is_digit 2 (Some 2) 1] m"
    and s: "s = u @ concat m @ v"
    and S: "\<And>c. S c \<Longrightarrow> \<not> is_digit c"
  shows False
proof -
  from serial_pattern_shape[OF f] obtain d1 x d2 where m: "m = [d1, [x], d2]" and
    d: "1 \<le> length d1" "list_all is_digit d1" "S x" "length d2 = 2" "list_all is_digit d2"
    by blast
  have "s = u @ d1 @ [x] @ d2 @ v" using s m by simp
  moreover from d have "d1 \<noteq> []" "d2 \<noteq> []" by auto
  ultimately have "is_digit x" using run_no_separator[OF r] d by blast
  with S[OF d(3)] show False by simp
qed

text \<open>On a text whose only digits are one run of three, the five patterns of a tiered parser.\<close>

lemma run3_searches:
  assumes r: "digit_run s pre [x, y, z] post"
    and S': "\<forall>c. S c \<longrightarrow> \<not> is_digit c" and H': "\<forall>c. H c \<longrightarrow> \<not> is_digit c"
  shows "re_search [Piece R 1 (Some n) 1, Piece W1 0 None 0, Piece is_digit 3 (Some 3) 2,
       Piece W2 0 None 0, Piece H 1 (Some 1) 3, Piece W3 0 None 0,
       Piece is_digit 1 (Some 2) 4, Piece S 1 (Some 1) 4, Piece is_digit 2 (Some 2) 4] s = None"
    and "re_search [Piece R 1 (Some n) 1, Piece W1 0 None 0, Piece is_digit 3 (Some 3) 2,
       Piece W2 0 None 0, Piece H 1 (Some 1) 3, Piece W3 0 None 0,
       Piece is_digit 4 (Some 4) 4] s = None"
    and "re_search [Piece is_digit 1 (Some 2) 1, Piece S 1 (Some 1) 1, Piece is_digit 2 (Some 2) 1] s = None"
    and "re_search [Piece is_digit 4 (Some 4) 1] s = None"
    and "re_search [Piece is_digit 3 (Some 3) 1] s = Some [[x, y, z]]"
proof -
  from S' have S: "\<And>c. S c \<Longrightarrow> \<not> is_digit c" by blast
  from H' have H: "\<And>c. H c \<Longrightarrow> \<not> is_digit c" by blast
  show "re_search [Piece R 1 (Some n) 1, Piece W1 0 None 0, Piece is_digit 3 (Some 3) 2,
       Piece W2 0 None 0, Piece H 1 (Some 1) 3, Piece W3 0 None 0,
       Piece is_digit 1 (Some 2) 4, Piece S 1 (Some 1) 4, Piece is_digit 2 (Some 2) 4] s = None"
    unfolding re_search_None_iff matches_def using run_no_tier1[OF r _ _ H] by blast
  show "re_search [Piece R 1 (Some n) 1, Piece W1 0 None 0, Piece is_digit 3 (Some 3) 2,
       Piece W2 0 None 0, Piece H 1 (Some 1) 3, Piece W3 0 None 0,
       Piece is_digit 4 (Some 4) 4] s = None"
    unfolding re_search_None_iff matches_def using run_no_tier2[OF r _ _ H] by blast
  show "re_search [Piece is_digit 1 (Some 2) 1, Piece S 1 (Some 1) 1, Piece is_digit 2 (Some 2) 1] s = None"
    unfolding re_search_None_iff matches_def using run_no_serial[OF r _ _ S] by blast
  show "re_search [Piece is_digit 4 (Some 4) 1] s = None"
  proof (rule ccontr)
    assume "re_search [Piece is_digit 4 (Some 4) 1] s \<noteq> None"
    then obtain m where "re_search [Piece is_digit 4 (Some 4) 1] s = Some m" by auto
    from search_single[OF this] obtain e u v where e: "length e = 4" "list_all is_digit e" "s = u @ e @ v"
      by blast
    then have "e \<noteq> []" by auto
    from digit_run_sub[OF r e(3) this e(2)] e(1) show False by auto
  qed
  from r have d: "is_digit x" "is_digit y" "is_digit z" and s: "s = pre @ [x, y, z] @ post"
    by (simp_all add: digit_run_def)
  have "fits [Piece is_digit 3 (Some 3) 1] [[x, y, z]]" using d by (simp add: fits_single)
  moreover have "s = pre @ concat [[x, y, z]] @ post" using s by simp
  ultimately have "re_search [Piece is_digit 3 (Some 3) 1] s \<noteq> None" by (rule re_search_complete)
  then obtain m where m: "re_search [Piece is_digit 3 (Some 3) 1] s = Some m" by auto
  from search_single[OF m] obtain e u v where e: "m = [e]" "length e = 3" "list_all is_digit e" "s = u @ e @ v"
    by blast
  from digit_run_sub_eq[OF r e(4) e(3)] e(2) have "e = [x, y, z]" by simp
  with m e(1) show "re_search [Piece is_digit 3 (Some 3) 1] s = Some [[x, y, z]]" by simp
qed

lemma not_digit_classes:
  "\<forall>c. sep3 c \<longrightarrow> \<not> is_digit c" "\<forall>c. sep2 c \<longrightarrow> \<not> is_digit c"
  "\<forall>c. hira_range c \<longrightarrow> \<not> is_digit c"
  using sep3_not_digit sep2_sep3 hira_not_digit by blast+

lemma app_parse_tier3:
  "re_search app_pattern1 (app_clean text) = None \<Longrightarrow>
   re_search app_pattern2 (app_clean text) = None \<Longrightarrow>
   app_parse_japanese_license_plate text = app_tier3 (app_clean text) (init_result (app_clean text))"
  by (simp add: app_parse_japanese_license_plate_def Let_def)

lemma ocr_parse_tier3:
  "re_search ocr_pattern1 (ocr_clean text) = None \<Longrightarrow>
   re_search ocr_pattern2 (ocr_clean text) = None \<Longrightarrow>
   ocr_parse_japanese_license_plate text = ocr_tier3 (ocr_clean text) (init_result (ocr_clean text))"
  by (simp add: ocr_parse_japanese_license_plate_def Let_def)

lemma app_number_patterns_nth:
  "app_number_patterns ! 0 = [Piece is_digit 1 (Some 2) 1, Piece sep3 1 (Some 1) 1, Piece is_digit 2 (Some 2) 1]"
  "app_number_patterns ! 1 = [Piece is_digit 4 (Some 4) 1]"
  "app_number_patterns ! 2 = [Piece is_digit 3 (Some 3) 1]"
  by (simp_all add: app_number_patterns_def)

lemma app_run3:
  assumes "digit_run (app_clean text) pre [x, y, z] post"
  shows "app_parse_japanese_license_plate text ''classification'' = Some [x, y, z]"
    and "app_parse_japanese_license_plate text ''number'' = Some []"
proof -
  note s = run3_searches[OF assms not_digit_classes(1,3)]
  have a1: "re_search app_pattern1 (app_clean text) = None"
    unfolding app_pattern1_def by (rule s(1))
  have a2: "re_search app_pattern2 (app_clean text) = None"
    unfolding app_pattern2_def by (rule s(2))
  have n0: "re_search (app_number_patterns ! 0) (app_clean text) = None"
    unfolding app_number_patterns_nth by (rule s(3))
  have n1: "re_search (app_number_patterns ! 1) (app_clean text) = None"
    unfolding app_number_patterns_nth by (rule s(4))
  have n2: "re_search (app_number_patterns ! 2) (app_clean text) = Some [[x, y, z]]"
    unfolding app_number_patterns_nth by (rule s(5))
  have t: "app_tier3 (app_clean text) r =
      (app_hiragana_step (app_clean text) (region_loop app_regions (app_clean text) r))
        (''classification'' \<mapsto> [x, y, z])" for r
    unfolding app_tier3_def app_number_loop_eq n0 n1 n2 by simp
  show "app_parse_japanese_license_plate text ''classification'' = Some [x, y, z]"
    unfolding app_parse_tier3[OF a1 a2] t by simp
  show "app_parse_japanese_license_plate text ''number'' = Some []"
    unfolding app_parse_tier3[OF a1 a2] t
    by (simp add: app_hiragana_step_other region_loop_other init_result_def)
qed


lemma ocr_number_patterns_eq:
  "ocr_number_patterns =
    [[Piece is_digit 1 (Some 2) 1, Piece sep2 1 (Some 1) 1, Piece is_digit 2 (Some 2) 1],
     [Piece is_digit 4 (Some 4) 1], [Piece is_digit 3 (Some 3) 1]]"
  by (simp add: ocr_number_patterns_def)

lemma ocr_run3:
  assumes "digit_run (ocr_clean text) pre [x, y, z] post"
  shows "ocr_parse_japanese_license_plate text ''classification'' = Some [x, y, z]"
    and "ocr_parse_japanese_license_plate text ''number'' = Some []"
proof -
  note s = run3_searches[OF assms not_digit_classes(2,3)]
  have a1: "re_search ocr_pattern1 (ocr_clean text) = None"
    unfolding ocr_pattern1_def by (rule s(1))
  have a2: "re_search ocr_pattern2 (ocr_clean text) = None"
    unfolding ocr_pattern2_def by (rule s(2))
  have g: "match_group [Piece is_digit 3 (Some 3) 1] [[x, y, z]] 1 = [x, y, z]"
    by (simp add: match_group_def)
  have "ocr_number_loop ocr_number_patterns (ocr_clean text) r = r(''classification'' \<mapsto> [x, y, z])" for r
    unfolding ocr_number_patterns_eq ocr_number_loop.simps s(3) s(4) s(5) option.case Let_def g
    by simp
  then have t: "ocr_tier3 (ocr_clean text) r =
      (ocr_hiragana_step (ocr_clean text) (region_loop ocr_regions (ocr_clean text) r))
        (''classification'' \<mapsto> [x, y, z])" for r
    unfolding ocr_tier3_def by simp
  show "ocr_parse_japanese_license_plate text ''classification'' = Some [x, y, z]"
    unfolding ocr_parse_tier3[OF a1 a2] t by simp
  show "ocr_parse_japanese_license_plate text ''number'' = Some []"
    unfolding ocr_parse_tier3[OF a1 a2] t
    by (simp add: ocr_hiragana_step_other region_loop_other init_result_def)
qed

lemma optional_serial_shape:
  assumes "fits [Piece D 1 (Some 2) 1, Piece S 0 (Some 1) 1, Piece D 2 (Some 2) 1] m"
  shows "\<exists>d1 sp d2. m = [d1, sp, d2] \<and> 1 \<le> length d1 \<and> length d1 \<le> 2 \<and> list_all D d1 \<and>
           (sp = [] \<or> (\<exists>x. sp = [x] \<and> S x)) \<and> length d2 = 2 \<and> list_all D d2 \<and>
           match_group [Piece D 1 (Some 2) 1, Piece S 0 (Some 1) 1, Piece D 2 (Some 2) 1] m 1 = concat m"
proof -
  from assms obtain d1 sp d2 where m: "m = [d1, sp, d2]" and
    d: "1 \<le> length d1" "length d1 \<le> 2" "list_all D d1" "length sp \<le> 1" "list_all S sp"
       "length d2 = 2" "list_all D d2"
    by (auto simp: fits_Cons fits_Nil fits1_bounded)
  from d(4,5) have "sp = [] \<or> (\<exists>x. sp = [x] \<and> S x)"
    by (cases sp) auto
  with m d show ?thesis by (auto simp: match_group_def)
qed

lemma simple_step_other: "k \<noteq> key \<Longrightarrow> simple_step pat key c r k = r k"
  by (auto simp: simple_step_def split: option.splits)

lemma simple_run3:
  assumes r: "digit_run (app_clean text) pre [x, y, z] post"
  shows "parse_simple_plate text ''classification'' = Some [x, y, z]"
    and "parse_simple_plate text ''number'' = Some [x, y, z]"
proof -
  let ?c = "app_clean text"
  let ?p = "[Piece is_digit 1 (Some 2) 1, Piece sep3 0 (Some 1) 1, Piece is_digit 2 (Some 2) 1]"
  from r have d: "is_digit x" "is_digit y" "is_digit z" and c: "?c = pre @ [x, y, z] @ post"
    by (simp_all add: digit_run_def)
  have "fits ?p [[x], [], [y, z]]" using d by (simp add: fits_Cons fits_Nil fits1_bounded)
  moreover have "?c = pre @ concat [[x], [], [y, z]] @ post" using c by simp
  ultimately have "re_search ?p ?c \<noteq> None" by (rule re_search_complete)
  then obtain m where m: "re_search ?p ?c = Some m" by auto
  from re_search_sound[OF m] obtain u v where f: "fits ?p m" and cm: "?c = u @ concat m @ v"
    by blast
  from optional_serial_shape[OF f] obtain d1 sp d2 where m_eq: "m = [d1, sp, d2]" and
    s: "1 \<le> length d1" "length d1 \<le> 2" "list_all is_digit d1"
       "sp = [] \<or> (\<exists>x. sp = [x] \<and> sep3 x)" "length d2 = 2" "list_all is_digit d2" and
    g: "match_group ?p m 1 = concat m"
    by blast
  have sp: "sp = []"
  proof (rule ccontr)
    assume "sp \<noteq> []"
    with s(4) obtain q where q: "sp = [q]" "sep3 q" by blast
    have "?c = u @ d1 @ [q] @ d2 @ v" using cm m_eq q by simp
    moreover from s have "d1 \<noteq> []" "d2 \<noteq> []" by auto
    ultimately have "is_digit q" using run_no_separator[OF r] s by blast
    with sep3_not_digit[OF q(2)] show False by simp
  qed
  have cm': "?c = u @ (d1 @ d2) @ v" using cm m_eq sp by simp
  have dd: "list_all is_digit (d1 @ d2)" "d1 @ d2 \<noteq> []" using s by auto
  from digit_run_sub[OF r cm' dd(2) dd(1)] s have "length (d1 @ d2) = length [x, y, z]" by auto
  from digit_run_sub_eq[OF r cm' dd(1) this] have "d1 @ d2 = [x, y, z]" by simp
  with m_eq sp g have num: "match_group ?p m 1 = [x, y, z]" by simp
  have n: "re_search simple_number_pattern ?c = Some m"
    unfolding simple_number_pattern_def by (rule m)
  have num': "match_group simple_number_pattern m 1 = [x, y, z]"
    unfolding simple_number_pattern_def by (rule num)
  have cl: "re_search simple_class_pattern ?c = Some [[x, y, z]]"
    unfolding simple_class_pattern_def
    by (rule run3_searches(5)[OF r not_digit_classes(1,3)])
  have g3: "match_group simple_class_pattern [[x, y, z]] 1 = [x, y, z]"
    by (simp add: match_group_def simple_class_pattern_def)
  show "parse_simple_plate text ''classification'' = Some [x, y, z]"
    unfolding parse_simple_plate_def Let_def
    by (simp only: simple_step_def cl option.case g3 fun_upd_same)
  show "parse_simple_plate text ''number'' = Some [x, y, z]"
    unfolding parse_simple_plate_def Let_def
    by (simp add: simple_step_other) (simp only: simple_step_def n option.case num' fun_upd_same)
qed


lemma clean_run3:
  assumes "is_digit x" "is_digit y" "is_digit z"
    and "list_all (\<lambda>c. \<not> is_digit c) pre" "list_all (\<lambda>c. \<not> is_digit c) post"
  shows "\<exists>pre' post'. digit_run (app_clean (pre @ [x, y, z] @ post)) pre' [x, y, z] post'"
proof -
  have "[x, y, z] \<noteq> []" "list_all is_digit [x, y, z]" using assms(1-3) by simp_all
  from app_clean_digit_run[OF this assms(4,5)] show ?thesis
    using assms(1-3) unfolding digit_run_def by auto
qed

lemma simple_580:
  "parse_simple_plate [0x35, 0x38, 0x30] ''number'' = Some [0x35, 0x38, 0x30]"
  "parse_simple_plate [0x35, 0x38, 0x30] ''classification'' = Some [0x35, 0x38, 0x30]"
  by (simp_all add: parse_simple_plate_def simple_step_def simple_number_pattern_def
      simple_class_pattern_def app_hiragana_pattern_def simple_regions_def app_clean_def
      engine_defs class_defs Let_def)

text \<open>
  Claim C7, as the code has it. In \<open>app.py\<close> the loop over the three numeric patterns sets
  one field from the first pattern that matches and stops: the serial with a separator
  gives the number as written, four digits give the number with a hyphen-minus inserted,
  three digits give the classification. So a text whose only digits are one run of three
  gets that run as classification and an empty number, in \<open>app.py\<close> and in \<open>ocr.py\<close>.
  \<open>parse_simple_plate\<close> searches its number pattern, whose separator is optional, and
  its classification pattern independently, and sets both fields to the run.
\<close>

theorem tier3_one_numeric_pattern:
  "app_number_loop (enumerate 0 app_number_patterns) c r =
     (case re_search (app_number_patterns ! 0) c of
        Some m \<Rightarrow> r(''number'' \<mapsto> concat m)
      | None \<Rightarrow>
          (case re_search (app_number_patterns ! 1) c of
             Some m \<Rightarrow> r(''number'' \<mapsto> take 2 (concat m) @ [0x2D] @ drop 2 (concat m))
           | None \<Rightarrow>
               (case re_search (app_number_patterns ! 2) c of
                  Some m \<Rightarrow> r(''classification'' \<mapsto> concat m)
                | None \<Rightarrow> r))) \<and>
   (is_digit x \<and> is_digit y \<and> is_digit z \<and>
    list_all (\<lambda>c. \<not> is_digit c) pre \<and> list_all (\<lambda>c. \<not> is_digit c) post \<longrightarrow>
      app_parse_japanese_license_plate (pre @ [x, y, z] @ post) ''classification'' = Some [x, y, z] \<and>
      app_parse_japanese_license_plate (pre @ [x, y, z] @ post) ''number'' = Some [] \<and>
      ocr_parse_japanese_license_plate (pre @ [x, y, z] @ post) ''classification'' = Some [x, y, z] \<and>
      ocr_parse_japanese_license_plate (pre @ [x, y, z] @ post) ''number'' = Some [] \<and>
      parse_simple_plate (pre @ [x, y, z] @ post) ''classification'' = Some [x, y, z] \<and>
      parse_simple_plate (pre @ [x, y, z] @ post) ''number'' = Some [x, y, z])"
proof (intro conjI impI)
  show "app_number_loop (enumerate 0 app_number_patterns) c r =
     (case re_search (app_number_patterns ! 0) c of
        Some m \<Rightarrow> r(''number'' \<mapsto> concat m)
      | None \<Rightarrow>
          (case re_search (app_number_patterns ! 1) c of
             Some m \<Rightarrow> r(''number'' \<mapsto> take 2 (concat m) @ [0x2D] @ drop 2 (concat m))
           | None \<Rightarrow>
               (case re_search (app_number_patterns ! 2) c of
                  Some m \<Rightarrow> r(''classification'' \<mapsto> concat m)
                | None \<Rightarrow> r)))"
    by (rule app_number_loop_eq)
next
  assume "is_digit x \<and> is_digit y \<and> is_digit z \<and>
    list_all (\<lambda>c. \<not> is_digit c) pre \<and> list_all (\<lambda>c. \<not> is_digit c) post"
  then obtain pre' post' where
    a: "digit_run (app_clean (pre @ [x, y, z] @ post)) pre' [x, y, z] post'"
    using clean_run3 by blast
  then have b: "digit_run (ocr_clean (pre @ [x, y, z] @ post)) pre' [x, y, z] post'"
    by (simp add: ocr_clean_eq)
  show "app_parse_japanese_license_plate (pre @ [x, y, z] @ post) ''classification'' = Some [x, y, z]"
    using a by (rule app_run3)
  show "app_parse_japanese_license_plate (pre @ [x, y, z] @ post) ''number'' = Some []"
    using a by (rule app_run3)
  show "ocr_parse_japanese_license_plate (pre @ [x, y, z] @ post) ''classification'' = Some [x, y, z]"
    using b by (rule ocr_run3)
  show "ocr_parse_japanese_license_plate (pre @ [x, y, z] @ post) ''number'' = Some []"
    using b by (rule ocr_run3)
  show "parse_simple_plate (pre @ [x, y, z] @ post) ''classification'' = Some [x, y, z]"
    using a by (rule simple_run3)
  show "parse_simple_plate (pre @ [x, y, z] @ post) ''number'' = Some [x, y, z]"
    using a by (rule simple_run3)
qed

theorem tier3_one_numeric_pattern_witness:
  "is_digit 0x35 \<and> is_digit 0x38 \<and> is_digit 0x30 \<and>
   list_all (\<lambda>c. \<not> is_digit c) [0x4E, 0x6F, 0x2E, 0x20] \<and> list_all (\<lambda>c. \<not> is_digit c) [] \<and>
   app_parse_japanese_license_plate [0x4E, 0x6F, 0x2E, 0x20, 0x35, 0x38, 0x30] ''classification''
     = Some [0x35, 0x38, 0x30] \<and>
   app_parse_japanese_license_plate [0x4E, 0x6F, 0x2E, 0x20, 0x35, 0x38, 0x30] ''number'' = Some [] \<and>
   ocr_parse_japanese_license_plate [0x4E, 0x6F, 0x2E, 0x20, 0x35, 0x38, 0x30] ''classification''
     = Some [0x35, 0x38, 0x30] \<and>
   ocr_parse_japanese_license_plate [0x4E, 0x6F, 0x2E, 0x20, 0x35, 0x38, 0x30] ''number'' = Some []"
proof -
  have d: "is_digit 0x35 \<and> is_digit 0x38 \<and> is_digit 0x30 \<and>
    list_all (\<lambda>c. \<not> is_digit c) [0x4E, 0x6F, 0x2E, 0x20] \<and> list_all (\<lambda>c. \<not> is_digit c) []"
    by (simp add: class_defs)
  from tier3_one_numeric_pattern[of _ _ "0x35" "0x38" "0x30" "[0x4E, 0x6F, 0x2E, 0x20]" "[]"] d
  show ?thesis by simp
qed

text \<open>
  Claim C7 as stated fails on \<open>parse_simple_plate\<close>: on the text \<open>580\<close> the number
  pattern and the classification pattern both match, and the number is not empty.
\<close>

theorem tier3_one_numeric_pattern_counterexample:
  "parse_simple_plate [0x35, 0x38, 0x30] ''classification'' = Some [0x35, 0x38, 0x30] \<and>
   parse_simple_plate [0x35, 0x38, 0x30] ''number'' = Some [0x35, 0x38, 0x30] \<and>
   parse_simple_plate [0x35, 0x38, 0x30] ''number'' \<noteq> Some []"
  by (simp add: simple_580)

section \<open>The catalogue search\<close>

lemma starts_with_iff: "starts_with s r \<longleftrightarrow> (\<exists>post. s = r @ post)"
  unfolding starts_with_def
  by (metis append_eq_conv_conj append_take_drop_id)

lemma occurs_Nil: "occurs r [] \<longleftrightarrow> r = []"
  by (simp add: occurs_def)

lemma occurs_Cons: "occurs r (c # cs) \<longleftrightarrow> (\<exists>post. c # cs = r @ post) \<or> occurs r cs"
proof
  assume "occurs r (c # cs)"
  then obtain pre post where e: "c # cs = pre @ r @ post" unfolding occurs_def by blast
  show "(\<exists>post. c # cs = r @ post) \<or> occurs r cs"
  proof (cases pre)
    case Nil
    with e show ?thesis by auto
  next
    case (Cons a pre')
    with e have "cs = pre' @ r @ post" by simp
    then show ?thesis unfolding occurs_def by blast
  qed
next
  assume "(\<exists>post. c # cs = r @ post) \<or> occurs r cs"
  then show "occurs r (c # cs)"
  proof
    assume "\<exists>post. c # cs = r @ post"
    then obtain post where "c # cs = [] @ r @ post" by auto
    then show ?thesis unfolding occurs_def by blast
  next
    assume "occurs r cs"
    then obtain pre post where "cs = pre @ r @ post" unfolding occurs_def by blast
    then have "c # cs = (c # pre) @ r @ post" by simp
    then show ?thesis unfolding occurs_def by blast
  qed
qed

lemma py_in_iff: "py_in r s \<longleftrightarrow> occurs r s"
  by (induction s) (simp_all add: occurs_Nil occurs_Cons starts_with_iff)

lemma occurs_prefix_re_sub_ws:
  "list_all (\<lambda>c. \<not> is_space c) r \<Longrightarrow> re_sub_ws s = r @ post \<Longrightarrow> \<exists>post'. s = r @ post'"
proof (induction r arbitrary: s post)
  case Nil
  then show ?case by simp
next
  case (Cons a r)
  from Cons.prems(1) have a: "\<not> is_space a" and r: "list_all (\<lambda>c. \<not> is_space c) r" by simp_all
  from Cons.prems(2) obtain c cs where s: "s = c # cs" by (cases s) auto
  show ?case
  proof (cases "is_space c")
    case True
    with s Cons.prems(2) have "a = 0x20" by simp
    with a is_space_0x20 show ?thesis by simp
  next
    case False
    with s Cons.prems(2) have "c = a" "re_sub_ws cs = r @ post" by simp_all
    with Cons.IH[OF r this(2)] s show ?thesis by auto
  qed
qed

lemma occurs_suffix: "occurs r (drop n s) \<Longrightarrow> occurs r s"
proof -
  assume "occurs r (drop n s)"
  then obtain pre post where "drop n s = pre @ r @ post" unfolding occurs_def by blast
  then have "s = (take n s @ pre) @ r @ post" by (metis append.assoc append_take_drop_id)
  then show ?thesis unfolding occurs_def by blast
qed

lemma occurs_dropWhile: "occurs r (dropWhile P s) \<Longrightarrow> occurs r s"
  using occurs_suffix[of r "length (takeWhile P s)" s] by (simp add: dropWhile_eq_drop)

lemma occurs_re_sub_ws:
  assumes "r \<noteq> []" "list_all (\<lambda>c. \<not> is_space c) r"
  shows "occurs r (re_sub_ws s) \<Longrightarrow> occurs r s"
proof (induction s rule: re_sub_ws.induct)
  case 1
  then show ?case by simp
next
  case (2 c cs)
  from assms obtain a r' where r: "r = a # r'" and a: "\<not> is_space a" by (cases r) auto
  show ?case
  proof (cases "is_space c")
    case True
    with 2(3) have "(\<exists>post. 0x20 # re_sub_ws (dropWhile is_space cs) = r @ post) \<or>
        occurs r (re_sub_ws (dropWhile is_space cs))"
      by (simp add: occurs_Cons)
    then have "occurs r (re_sub_ws (dropWhile is_space cs))"
      using r a is_space_0x20 by auto
    from 2(1)[OF True this] have "occurs r cs" by (rule occurs_dropWhile)
    then show ?thesis by (simp add: occurs_Cons)
  next
    case False
    with 2(3) have "(\<exists>post. re_sub_ws (c # cs) = r @ post) \<or> occurs r (re_sub_ws cs)"
      by (simp add: occurs_Cons)
    then show ?thesis
    proof
      assume "\<exists>post. re_sub_ws (c # cs) = r @ post"
      then obtain post where "re_sub_ws (c # cs) = r @ post" by blast
      from occurs_prefix_re_sub_ws[OF assms(2) this] show ?thesis
        by (auto simp: occurs_Cons)
    next
      assume "occurs r (re_sub_ws cs)"
      from 2(2)[OF False this] show ?thesis by (simp add: occurs_Cons)
    qed
  qed
qed

lemma occurs_py_strip: "occurs r (py_strip s) \<Longrightarrow> occurs r s"
proof -
  assume "occurs r (py_strip s)"
  then obtain pre post where e: "py_rstrip (py_lstrip s) = pre @ r @ post"
    unfolding occurs_def py_strip_def by blast
  have "py_lstrip s = py_rstrip (py_lstrip s) @ rev (takeWhile is_space (rev (py_lstrip s)))"
    unfolding py_rstrip_def by (metis rev_append rev_rev_ident takeWhile_dropWhile_id)
  with e have "py_lstrip s = pre @ r @ (post @ rev (takeWhile is_space (rev (py_lstrip s))))"
    by simp
  then have "occurs r (py_lstrip s)" unfolding occurs_def by blast
  then show ?thesis unfolding py_lstrip_def by (rule occurs_dropWhile)
qed

lemma occurs_py_replace:
  assumes "b \<notin> set r" "occurs r (py_replace a b s)"
  shows "occurs r s"
proof -
  let ?f = "\<lambda>c. if c = a then b else c"
  from assms(2) obtain pre post where "map ?f s = pre @ r @ post"
    unfolding occurs_def py_replace_def by blast
  then have "\<exists>us vs. s = us @ vs \<and> pre = map ?f us \<and> r @ post = map ?f vs"
    by (simp only: map_eq_append_conv)
  then obtain s1 t where s1: "s = s1 @ t" and t: "map ?f t = r @ post"
    by metis
  then have "\<exists>us vs. t = us @ vs \<and> r = map ?f us \<and> post = map ?f vs"
    by (simp only: map_eq_append_conv)
  then obtain s2 s3 where t2: "t = s2 @ s3" and m: "map ?f s2 = r"
    by metis
  from s1 t2 have s: "s = s1 @ s2 @ s3" by simp
  have "map ?f s2 = s2"
  proof (rule map_idI)
    fix x assume "x \<in> set s2"
    then have "?f x \<in> set r" using m by auto
    with assms(1) show "?f x = x" by (auto split: if_splits)
  qed
  with m s show ?thesis unfolding occurs_def by auto
qed

lemma occurs_app_clean_iff:
  assumes "r \<noteq> []" "list_all (\<lambda>c. \<not> is_space c) r"
  shows "occurs r (app_clean text) \<longleftrightarrow> occurs r text"
proof
  assume "occurs r (app_clean text)"
  then have "occurs r (re_sub_ws (py_replace 0xD 0x20 (py_replace 0xA 0x20 text)))"
    unfolding app_clean_def by (rule occurs_py_strip)
  then have o: "occurs r (py_replace 0xD 0x20 (py_replace 0xA 0x20 text))"
    by (rule occurs_re_sub_ws[OF assms])
  have "0x20 \<notin> set r" using assms(2) is_space_0x20 by (auto simp: list_all_iff)
  from occurs_py_replace[OF this occurs_py_replace[OF this o]] show "occurs r text" .
next
  assume "occurs r text"
  then obtain pre post where "text = pre @ r @ post" unfolding occurs_def by blast
  with app_clean_word[OF assms, of pre post] show "occurs r (app_clean text)"
    unfolding occurs_def by auto
qed

lemma regions_plain:
  "\<forall>r\<in>set app_regions. r \<noteq> [] \<and> list_all (\<lambda>c. \<not> is_space c) r"
  "\<forall>r\<in>set ocr_regions. r \<noteq> [] \<and> list_all (\<lambda>c. \<not> is_space c) r"
  "\<forall>r\<in>set simple_regions. r \<noteq> [] \<and> list_all (\<lambda>c. \<not> is_space c) r"
  by (simp_all add: app_regions_def ocr_regions_def simple_regions_def is_space_def in_ranges_def
      space_ranges_def)

lemma region_occurs_clean:
  "r \<in> set app_regions \<Longrightarrow> occurs r (app_clean text) \<longleftrightarrow> occurs r text"
  "r \<in> set ocr_regions \<Longrightarrow> occurs r (ocr_clean text) \<longleftrightarrow> occurs r text"
  "r \<in> set simple_regions \<Longrightarrow> occurs r (app_clean text) \<longleftrightarrow> occurs r text"
  using regions_plain occurs_app_clean_iff by (auto simp: ocr_clean_eq)

lemma region_loop_region:
  "region_loop rs c r ''region'' =
     (case find (\<lambda>x. py_in x c) rs of Some x \<Rightarrow> Some x | None \<Rightarrow> r ''region'')"
  by (induction rs) auto

lemma app_number_loop_other:
  "k \<noteq> ''number'' \<Longrightarrow> k \<noteq> ''classification'' \<Longrightarrow> app_number_loop ps c r k = r k"
  by (induction ps c r rule: app_number_loop.induct) (auto simp: Let_def split: option.splits)

lemma ocr_number_loop_other:
  "k \<noteq> ''number'' \<Longrightarrow> k \<noteq> ''classification'' \<Longrightarrow> ocr_number_loop ps c r k = r k"
  by (induction ps c r rule: ocr_number_loop.induct) (auto simp: Let_def split: option.splits)

lemma region_found:
  assumes "p ''region'' = (case find (\<lambda>x. py_in x c) rs of Some x \<Rightarrow> Some x | None \<Rightarrow> Some [])"
  shows "(\<exists>i<length rs. occurs (rs ! i) c \<and> (\<forall>j<i. \<not> occurs (rs ! j) c) \<and>
            p ''region'' = Some (rs ! i)) \<or>
         ((\<forall>x\<in>set rs. \<not> occurs x c) \<and> p ''region'' = Some [])"
proof (cases "find (\<lambda>x. py_in x c) rs")
  case None
  then have "\<forall>x\<in>set rs. \<not> occurs x c" by (simp add: find_None_iff py_in_iff)
  with None assms show ?thesis by simp
next
  case (Some x)
  then obtain i where "i < length rs" "py_in (rs ! i) c" "x = rs ! i" "\<forall>j<i. \<not> py_in (rs ! j) c"
    unfolding find_Some_iff by blast
  with Some assms show ?thesis by (auto simp: py_in_iff)
qed

lemma region_found_text:
  assumes e: "\<forall>r\<in>set rs. occurs r c \<longleftrightarrow> occurs r t"
    and p: "p ''region'' = (case find (\<lambda>x. py_in x c) rs of Some x \<Rightarrow> Some x | None \<Rightarrow> Some [])"
  shows "(\<exists>i<length rs. occurs (rs ! i) t \<and> (\<forall>j<i. \<not> occurs (rs ! j) t) \<and>
            p ''region'' = Some (rs ! i)) \<or>
         ((\<forall>x\<in>set rs. \<not> occurs x t) \<and> p ''region'' = Some [])"
proof -
  from e have n: "\<And>i. i < length rs \<Longrightarrow> occurs (rs ! i) c \<longleftrightarrow> occurs (rs ! i) t"
    by simp
  from p have "(\<exists>i<length rs. occurs (rs ! i) c \<and> (\<forall>j<i. \<not> occurs (rs ! j) c) \<and>
            p ''region'' = Some (rs ! i)) \<or>
         ((\<forall>x\<in>set rs. \<not> occurs x c) \<and> p ''region'' = Some [])"
    by (rule region_found)
  then show ?thesis
  proof
    assume "\<exists>i<length rs. occurs (rs ! i) c \<and> (\<forall>j<i. \<not> occurs (rs ! j) c) \<and>
            p ''region'' = Some (rs ! i)"
    then obtain i where i: "i < length rs" "occurs (rs ! i) c" "\<forall>j<i. \<not> occurs (rs ! j) c"
      "p ''region'' = Some (rs ! i)" by blast
    from i(1,2) have "occurs (rs ! i) t" by (simp add: n)
    moreover from i(1,3) have "\<forall>j<i. \<not> occurs (rs ! j) t" by (simp add: n)
    ultimately show ?thesis using i(1,4) by blast
  next
    assume "(\<forall>x\<in>set rs. \<not> occurs x c) \<and> p ''region'' = Some []"
    with e show ?thesis by simp
  qed
qed

lemma app_tier3_region:
  "app_tier3 c (init_result c) ''region'' =
     (case find (\<lambda>x. py_in x c) app_regions of Some x \<Rightarrow> Some x | None \<Rightarrow> Some [])"
  by (simp add: app_tier3_def app_number_loop_other app_hiragana_step_other region_loop_region
      init_result_def split: option.splits)

lemma ocr_tier3_region:
  "ocr_tier3 c (init_result c) ''region'' =
     (case find (\<lambda>x. py_in x c) ocr_regions of Some x \<Rightarrow> Some x | None \<Rightarrow> Some [])"
  by (simp add: ocr_tier3_def ocr_number_loop_other ocr_hiragana_step_other region_loop_region
      init_result_def split: option.splits)

lemma partial_plate_app:
  "app_parse_japanese_license_plate partial_plate =
     [''region'' \<mapsto> [0x6A2A, 0x6D5C], ''classification'' \<mapsto> [], ''hiragana'' \<mapsto> [0x3042],
      ''number'' \<mapsto> [0x31, 0x32, 0x2D, 0x33, 0x34], ''full_text'' \<mapsto> partial_plate]"
  by (rule ext) (simp add: partial_plate_def app_defs engine_defs class_defs)

lemma partial_plate_ocr:
  "ocr_parse_japanese_license_plate partial_plate =
     [''region'' \<mapsto> [0x6A2A, 0x6D5C], ''classification'' \<mapsto> [], ''hiragana'' \<mapsto> [0x3042],
      ''number'' \<mapsto> [0x31, 0x32, 0x2D, 0x33, 0x34], ''full_text'' \<mapsto> partial_plate]"
  by (rule ext) (simp add: partial_plate_def ocr_defs engine_defs class_defs)


lemma partial_plate_clean:
  "app_clean partial_plate = partial_plate" "ocr_clean partial_plate = partial_plate"
  by (simp_all add: partial_plate_def app_clean_def ocr_clean_def engine_defs class_defs)

lemma partial_plate_full:
  "re_search app_pattern1 partial_plate = None" "re_search app_pattern2 partial_plate = None"
  "re_search ocr_pattern1 partial_plate = None" "re_search ocr_pattern2 partial_plate = None"
  by (simp_all add: partial_plate_def app_pattern1_def app_pattern2_def ocr_pattern1_def
      ocr_pattern2_def engine_defs class_defs)

text \<open>
  Claim C8. When neither full pattern matches, the region is the first entry of the
  parser's catalogue, in the order listed, that occurs somewhere in the text as a
  contiguous substring, and the empty string when no entry occurs. The search runs on the
  cleaned text; no entry holds white space, so an entry occurs there exactly when it
  occurs in the text given. The text of the specification's example gets the region from
  the catalogue, the first hiragana and the serial with its hyphen, in \<open>app.py\<close> and in
  \<open>ocr.py\<close>.
\<close>

theorem tier3_region:
  "(\<not> matches app_pattern1 (app_clean text) \<and> \<not> matches app_pattern2 (app_clean text) \<longrightarrow>
      (\<exists>i<length app_regions. occurs (app_regions ! i) text \<and>
          (\<forall>j<i. \<not> occurs (app_regions ! j) text) \<and>
          app_parse_japanese_license_plate text ''region'' = Some (app_regions ! i)) \<or>
      ((\<forall>x\<in>set app_regions. \<not> occurs x text) \<and>
       app_parse_japanese_license_plate text ''region'' = Some [])) \<and>
   (\<not> matches ocr_pattern1 (ocr_clean text) \<and> \<not> matches ocr_pattern2 (ocr_clean text) \<longrightarrow>
      (\<exists>i<length ocr_regions. occurs (ocr_regions ! i) text \<and>
          (\<forall>j<i. \<not> occurs (ocr_regions ! j) text) \<and>
          ocr_parse_japanese_license_plate text ''region'' = Some (ocr_regions ! i)) \<or>
      ((\<forall>x\<in>set ocr_regions. \<not> occurs x text) \<and>
       ocr_parse_japanese_license_plate text ''region'' = Some [])) \<and>
   app_parse_japanese_license_plate partial_plate =
     [''region'' \<mapsto> [0x6A2A, 0x6D5C], ''classification'' \<mapsto> [], ''hiragana'' \<mapsto> [0x3042],
      ''number'' \<mapsto> [0x31, 0x32, 0x2D, 0x33, 0x34], ''full_text'' \<mapsto> partial_plate] \<and>
   ocr_parse_japanese_license_plate partial_plate =
     [''region'' \<mapsto> [0x6A2A, 0x6D5C], ''classification'' \<mapsto> [], ''hiragana'' \<mapsto> [0x3042],
      ''number'' \<mapsto> [0x31, 0x32, 0x2D, 0x33, 0x34], ''full_text'' \<mapsto> partial_plate]"
proof (intro conjI impI)
  assume "\<not> matches app_pattern1 (app_clean text) \<and> \<not> matches app_pattern2 (app_clean text)"
  then have "re_search app_pattern1 (app_clean text) = None"
    "re_search app_pattern2 (app_clean text) = None"
    by (simp_all add: re_search_None_iff)
  from app_parse_tier3[OF this]
  have "app_parse_japanese_license_plate text ''region'' =
      (case find (\<lambda>x. py_in x (app_clean text)) app_regions of
         Some x \<Rightarrow> Some x | None \<Rightarrow> Some [])"
    by (simp add: app_tier3_region)
  moreover have "\<forall>r\<in>set app_regions. occurs r (app_clean text) \<longleftrightarrow> occurs r text"
    by (simp add: region_occurs_clean)
  ultimately show "(\<exists>i<length app_regions. occurs (app_regions ! i) text \<and>
          (\<forall>j<i. \<not> occurs (app_regions ! j) text) \<and>
          app_parse_japanese_license_plate text ''region'' = Some (app_regions ! i)) \<or>
      ((\<forall>x\<in>set app_regions. \<not> occurs x text) \<and>
       app_parse_japanese_license_plate text ''region'' = Some [])"
    by (rule region_found_text[rotated])
next
  assume "\<not> matches ocr_pattern1 (ocr_clean text) \<and> \<not> matches ocr_pattern2 (ocr_clean text)"
  then have "re_search ocr_pattern1 (ocr_clean text) = None"
    "re_search ocr_pattern2 (ocr_clean text) = None"
    by (simp_all add: re_search_None_iff)
  from ocr_parse_tier3[OF this]
  have "ocr_parse_japanese_license_plate text ''region'' =
      (case find (\<lambda>x. py_in x (ocr_clean text)) ocr_regions of
         Some x \<Rightarrow> Some x | None \<Rightarrow> Some [])"
    by (simp add: ocr_tier3_region)
  moreover have "\<forall>r\<in>set ocr_regions. occurs r (ocr_clean text) \<longleftrightarrow> occurs r text"
    by (simp add: region_occurs_clean)
  ultimately show "(\<exists>i<length ocr_regions. occurs (ocr_regions ! i) text \<and>
          (\<forall>j<i. \<not> occurs (ocr_regions ! j) text) \<and>
          ocr_parse_japanese_license_plate text ''region'' = Some (ocr_regions ! i)) \<or>
      ((\<forall>x\<in>set ocr_regions. \<not> occurs x text) \<and>
       ocr_parse_japanese_license_plate text ''region'' = Some [])"
    by (rule region_found_text[rotated])
next
  show "app_parse_japanese_license_plate partial_plate =
     [''region'' \<mapsto> [0x6A2A, 0x6D5C], ''classification'' \<mapsto> [], ''hiragana'' \<mapsto> [0x3042],
      ''number'' \<mapsto> [0x31, 0x32, 0x2D, 0x33, 0x34], ''full_text'' \<mapsto> partial_plate]"
    by (rule partial_plate_app)
next
  show "ocr_parse_japanese_license_plate partial_plate =
     [''region'' \<mapsto> [0x6A2A, 0x6D5C], ''classification'' \<mapsto> [], ''hiragana'' \<mapsto> [0x3042],
      ''number'' \<mapsto> [0x31, 0x32, 0x2D, 0x33, 0x34], ''full_text'' \<mapsto> partial_plate]"
    by (rule partial_plate_ocr)
qed

theorem tier3_region_witness:
  "\<not> matches app_pattern1 (app_clean partial_plate) \<and>
   \<not> matches app_pattern2 (app_clean partial_plate) \<and>
   \<not> matches ocr_pattern1 (ocr_clean partial_plate) \<and>
   \<not> matches ocr_pattern2 (ocr_clean partial_plate) \<and>
   app_parse_japanese_license_plate partial_plate ''region'' = Some [0x6A2A, 0x6D5C] \<and>
   ocr_parse_japanese_license_plate partial_plate ''region'' = Some [0x6A2A, 0x6D5C] \<and>
   ((\<exists>i<length app_regions. occurs (app_regions ! i) partial_plate \<and>
        (\<forall>j<i. \<not> occurs (app_regions ! j) partial_plate) \<and>
        app_parse_japanese_license_plate partial_plate ''region'' = Some (app_regions ! i)) \<or>
    ((\<forall>x\<in>set app_regions. \<not> occurs x partial_plate) \<and>
     app_parse_japanese_license_plate partial_plate ''region'' = Some [])) \<and>
   ((\<exists>i<length ocr_regions. occurs (ocr_regions ! i) partial_plate \<and>
        (\<forall>j<i. \<not> occurs (ocr_regions ! j) partial_plate) \<and>
        ocr_parse_japanese_license_plate partial_plate ''region'' = Some (ocr_regions ! i)) \<or>
    ((\<forall>x\<in>set ocr_regions. \<not> occurs x partial_plate) \<and>
     ocr_parse_japanese_license_plate partial_plate ''region'' = Some []))"
proof -
  have n: "\<not> matches app_pattern1 (app_clean partial_plate)"
    "\<not> matches app_pattern2 (app_clean partial_plate)"
    "\<not> matches ocr_pattern1 (ocr_clean partial_plate)"
    "\<not> matches ocr_pattern2 (ocr_clean partial_plate)"
    by (simp_all add: re_search_None_iff[symmetric] partial_plate_clean partial_plate_full)
  note t = tier3_region[of partial_plate]
  from t have "app_parse_japanese_license_plate partial_plate ''region'' = Some [0x6A2A, 0x6D5C]"
    "ocr_parse_japanese_license_plate partial_plate ''region'' = Some [0x6A2A, 0x6D5C]"
    by simp_all
  with n t show ?thesis by blast
qed

section \<open>The hiragana search\<close>

lemma rx_match_char:
  "rx_match [Piece P 1 (Some 1) g] s = (case s of [] \<Rightarrow> None | c # cs \<Rightarrow> if P c then Some [[c]] else None)"
proof (cases s)
  case Nil
  then show ?thesis by (simp add: reach_def)
next
  case (Cons c cs)
  show ?thesis
  proof (cases "P c")
    case True
    then have "reach (Piece P 1 (Some 1) g) s = 1" using Cons by (simp add: reach_def)
    then show ?thesis using Cons True by (simp add: rx_back.simps)
  next
    case False
    then have "reach (Piece P 1 (Some 1) g) s = 0" using Cons by (simp add: reach_def)
    then show ?thesis using Cons False by simp
  qed
qed

lemma re_search_char:
  "re_search [Piece P 1 (Some 1) g] s = (case find P s of None \<Rightarrow> None | Some c \<Rightarrow> Some [[c]])"
  by (induction s) (simp_all add: rx_match_char del: rx_match.simps One_nat_def)

lemma find_filter_conv: "find P xs = (case filter P xs of [] \<Rightarrow> None | x # _ \<Rightarrow> Some x)"
  by (induction xs) auto

lemma filter_dropWhile_disjoint:
  "(\<And>c. P c \<Longrightarrow> \<not> Q c) \<Longrightarrow> filter P (dropWhile Q xs) = filter P xs"
  by (induction xs) auto

lemma filter_re_sub_ws:
  assumes "\<And>c. P c \<Longrightarrow> \<not> is_space c"
  shows "filter P (re_sub_ws s) = filter P s"
proof (induction s rule: re_sub_ws.induct)
  case 1
  then show ?case by simp
next
  case (2 c cs)
  show ?case
  proof (cases "is_space c")
    case True
    have "\<not> P 0x20" "\<not> P c" using assms is_space_0x20 True by blast+
    moreover have "filter P (dropWhile is_space cs) = filter P cs"
      using assms by (rule filter_dropWhile_disjoint)
    ultimately show ?thesis using 2 True by simp
  next
    case False
    with 2 show ?thesis by simp
  qed
qed

lemma filter_py_strip:
  assumes "\<And>c. P c \<Longrightarrow> \<not> is_space c"
  shows "filter P (py_strip s) = filter P s"
proof -
  have "filter P (py_rstrip t) = filter P t" for t
  proof -
    have "filter P (rev (dropWhile is_space (rev t))) = rev (filter P (dropWhile is_space (rev t)))"
      by (simp add: rev_filter)
    also have "filter P (dropWhile is_space (rev t)) = filter P (rev t)"
      using assms by (rule filter_dropWhile_disjoint)
    finally show ?thesis by (simp add: py_rstrip_def rev_filter)
  qed
  moreover have "filter P (py_lstrip s) = filter P s"
    unfolding py_lstrip_def using assms by (rule filter_dropWhile_disjoint)
  ultimately show ?thesis by (simp add: py_strip_def)
qed

lemma filter_py_replace:
  "\<not> P a \<Longrightarrow> \<not> P b \<Longrightarrow> filter P (py_replace a b s) = filter P s"
  by (induction s) (auto simp: py_replace_def)

lemma find_app_clean:
  assumes "\<And>c. P c \<Longrightarrow> \<not> is_space c"
  shows "find P (app_clean text) = find P text"
proof -
  have "\<not> P 0xA" "\<not> P 0xD" "\<not> P 0x20" using assms is_space_nl is_space_0x20 by blast+
  then have "filter P (app_clean text) = filter P text"
    unfolding app_clean_def
    by (simp add: filter_py_strip[OF assms] filter_re_sub_ws[OF assms] filter_py_replace)
  then show ?thesis by (simp add: find_filter_conv)
qed

lemma in_hiragana_list_range: "in_hiragana_list c \<Longrightarrow> hira_range c"
  by (auto simp: in_hiragana_list_def hiragana_list_def hira_range_def)

lemma app_tier3_hiragana:
  "app_tier3 c (init_result c) ''hiragana'' =
     (case find hira_range c of None \<Rightarrow> Some [] | Some x \<Rightarrow> Some [x])"
  by (simp add: app_tier3_def app_number_loop_other app_hiragana_step_def app_hiragana_pattern_def
      re_search_char match_group_def region_loop_other init_result_def
      del: One_nat_def split: option.splits)

lemma ocr_tier3_hiragana:
  "ocr_tier3 c (init_result c) ''hiragana'' =
     (case find in_hiragana_list c of None \<Rightarrow> Some [] | Some x \<Rightarrow> Some [x])"
  by (simp add: ocr_tier3_def ocr_number_loop_other ocr_hiragana_step_def ocr_hiragana_pattern_def
      re_search_char match_group_def region_loop_other init_result_def
      del: One_nat_def split: option.splits)


text \<open>
  Claim C6, as the code has it. When neither full pattern matches, \<open>app.py\<close> sets the
  hiragana to the first character of the text in the range U+3042 to U+3093, and
  \<open>ocr.py\<close> to the first character of the text that is one of the 46 letters of its
  \<open>hiragana_list\<close>; the field is empty when the text has no such character.
\<close>

theorem tier3_hiragana:
  "(\<not> matches app_pattern1 (app_clean text) \<and> \<not> matches app_pattern2 (app_clean text) \<longrightarrow>
      app_parse_japanese_license_plate text ''hiragana'' =
        (case find hira_range text of None \<Rightarrow> Some [] | Some x \<Rightarrow> Some [x])) \<and>
   (\<not> matches ocr_pattern1 (ocr_clean text) \<and> \<not> matches ocr_pattern2 (ocr_clean text) \<longrightarrow>
      ocr_parse_japanese_license_plate text ''hiragana'' =
        (case find in_hiragana_list text of None \<Rightarrow> Some [] | Some x \<Rightarrow> Some [x]))"
proof (intro conjI impI)
  assume "\<not> matches app_pattern1 (app_clean text) \<and> \<not> matches app_pattern2 (app_clean text)"
  then have "re_search app_pattern1 (app_clean text) = None"
    "re_search app_pattern2 (app_clean text) = None"
    by (simp_all add: re_search_None_iff)
  from app_parse_tier3[OF this]
  have "app_parse_japanese_license_plate text ''hiragana'' =
      (case find hira_range (app_clean text) of None \<Rightarrow> Some [] | Some x \<Rightarrow> Some [x])"
    by (simp add: app_tier3_hiragana)
  also have "find hira_range (app_clean text) = find hira_range text"
    using hira_not_space by (rule find_app_clean)
  finally show "app_parse_japanese_license_plate text ''hiragana'' =
        (case find hira_range text of None \<Rightarrow> Some [] | Some x \<Rightarrow> Some [x])" .
next
  assume "\<not> matches ocr_pattern1 (ocr_clean text) \<and> \<not> matches ocr_pattern2 (ocr_clean text)"
  then have "re_search ocr_pattern1 (ocr_clean text) = None"
    "re_search ocr_pattern2 (ocr_clean text) = None"
    by (simp_all add: re_search_None_iff)
  from ocr_parse_tier3[OF this]
  have "ocr_parse_japanese_license_plate text ''hiragana'' =
      (case find in_hiragana_list (ocr_clean text) of None \<Rightarrow> Some [] | Some x \<Rightarrow> Some [x])"
    by (simp add: ocr_tier3_hiragana)
  also have "find in_hiragana_list (ocr_clean text) = find in_hiragana_list text"
    unfolding ocr_clean_eq using in_hiragana_list_range hira_not_space
    by (intro find_app_clean) blast
  finally show "ocr_parse_japanese_license_plate text ''hiragana'' =
        (case find in_hiragana_list text of None \<Rightarrow> Some [] | Some x \<Rightarrow> Some [x])" .
qed

theorem tier3_hiragana_witness:
  "\<not> matches app_pattern1 (app_clean partial_plate) \<and>
   \<not> matches app_pattern2 (app_clean partial_plate) \<and>
   \<not> matches ocr_pattern1 (ocr_clean partial_plate) \<and>
   \<not> matches ocr_pattern2 (ocr_clean partial_plate) \<and>
   find hira_range partial_plate = Some 0x3042 \<and>
   find in_hiragana_list partial_plate = Some 0x3042 \<and>
   app_parse_japanese_license_plate partial_plate ''hiragana'' = Some [0x3042] \<and>
   ocr_parse_japanese_license_plate partial_plate ''hiragana'' = Some [0x3042]"
proof -
  have n: "\<not> matches app_pattern1 (app_clean partial_plate)"
    "\<not> matches app_pattern2 (app_clean partial_plate)"
    "\<not> matches ocr_pattern1 (ocr_clean partial_plate)"
    "\<not> matches ocr_pattern2 (ocr_clean partial_plate)"
    by (simp_all add: re_search_None_iff[symmetric] partial_plate_clean partial_plate_full)
  have f: "find hira_range partial_plate = Some 0x3042"
    "find in_hiragana_list partial_plate = Some 0x3042"
    by (simp_all add: partial_plate_def class_defs)
  from tier3_hiragana[of partial_plate] n f show ?thesis by simp
qed

lemma voiced_ocr:
  "re_search ocr_pattern1 (ocr_clean [0x304C]) = None"
  "re_search ocr_pattern2 (ocr_clean [0x304C]) = None"
  "ocr_parse_japanese_license_plate [0x304C] ''hiragana'' = Some []"
  by (simp_all add: ocr_defs engine_defs class_defs)

text \<open>
  Claim C6 as stated fails on \<open>ocr.py\<close>: the voiced letter U+304C lies in the range, no
  full pattern matches the text made of it, and the hiragana stays empty.
\<close>

theorem tier3_hiragana_counterexample:
  "hira_range 0x304C \<and> find hira_range [0x304C] = Some 0x304C \<and>
   re_search ocr_pattern1 (ocr_clean [0x304C]) = None \<and>
   re_search ocr_pattern2 (ocr_clean [0x304C]) = None \<and>
   ocr_parse_japanese_license_plate [0x304C] ''hiragana'' = Some [] \<and>
   ocr_parse_japanese_license_plate [0x304C] ''hiragana'' \<noteq> Some [0x304C]"
  by (simp add: voiced_ocr hira_range_def)

section \<open>The formats of classification and number\<close>

lemma full_pattern_classification:
  assumes "fits [Piece R 1 (Some n) 1, Piece W1 0 None 0, Piece C 3 (Some 3) 2, Piece W2 0 None 0,
     Piece H 1 (Some 1) 3, Piece W3 0 None 0,
     Piece D1 1 (Some 2) 4, Piece S 1 (Some 1) 4, Piece D2 2 (Some 2) 4] m"
  shows "length (match_group [Piece R 1 (Some n) 1, Piece W1 0 None 0, Piece C 3 (Some 3) 2, Piece W2 0 None 0,
     Piece H 1 (Some 1) 3, Piece W3 0 None 0,
     Piece D1 1 (Some 2) 4, Piece S 1 (Some 1) 4, Piece D2 2 (Some 2) 4] m 2) = 3 \<and>
     list_all C (match_group [Piece R 1 (Some n) 1, Piece W1 0 None 0, Piece C 3 (Some 3) 2, Piece W2 0 None 0,
     Piece H 1 (Some 1) 3, Piece W3 0 None 0,
     Piece D1 1 (Some 2) 4, Piece S 1 (Some 1) 4, Piece D2 2 (Some 2) 4] m 2)"
proof -
  from tier1_shape[OF assms] obtain r w1 c w2 h w3 d1 x d2 where
    "m = [r, w1, c, w2, [h], w3, d1, [x], d2]" "length c = 3" "list_all C c" by blast
  then show ?thesis by (simp add: match_group_def)
qed

lemma full_pattern2_classification:
  assumes "fits [Piece R 1 (Some n) 1, Piece W1 0 None 0, Piece C 3 (Some 3) 2, Piece W2 0 None 0,
     Piece H 1 (Some 1) 3, Piece W3 0 None 0, Piece D 4 (Some 4) 4] m"
  shows "length (match_group [Piece R 1 (Some n) 1, Piece W1 0 None 0, Piece C 3 (Some 3) 2, Piece W2 0 None 0,
     Piece H 1 (Some 1) 3, Piece W3 0 None 0, Piece D 4 (Some 4) 4] m 2) = 3 \<and>
     list_all C (match_group [Piece R 1 (Some n) 1, Piece W1 0 None 0, Piece C 3 (Some 3) 2, Piece W2 0 None 0,
     Piece H 1 (Some 1) 3, Piece W3 0 None 0, Piece D 4 (Some 4) 4] m 2)"
proof -
  from tier2_shape[OF assms] obtain r w1 c w2 h w3 d where
    "m = [r, w1, c, w2, [h], w3, d]" "length c = 3" "list_all C c" by blast
  then show ?thesis by (simp add: match_group_def)
qed

lemma sep_hyphen: "sep2 0x2D" "sep3 0x2D"
  by (simp_all add: sep2_def sep3_def)

lemma py_in_single: "py_in [x] s \<longleftrightarrow> x \<in> set s"
  by (induction s) (auto simp: starts_with_def)

lemma not_digit_hyphen: "\<not> is_digit 0x2D"
  by (simp add: is_digit_def in_ranges_def digit_ranges_def)

lemma app_formats:
  "\<exists>cl n. app_parse_japanese_license_plate text ''classification'' = Some cl \<and>
     (cl = [] \<or> digits_n 3 cl) \<and>
     app_parse_japanese_license_plate text ''number'' = Some n \<and>
     (n = [] \<or> serial_shape is_digit sep3 n)"
proof (cases "re_search app_pattern1 (app_clean text)")
  case (Some m)
  from re_search_sound[OF Some] obtain pre post where
    f: "fits app_pattern1 m" and s: "app_clean text = pre @ concat m @ post" by blast
  from tier1_serial[OF f[unfolded app_pattern1_def] s]
  have "serial_shape is_digit sep3 (match_group app_pattern1 m 4)"
    unfolding app_pattern1_def by simp
  moreover from full_pattern_classification[OF f[unfolded app_pattern1_def]]
  have "digits_n 3 (match_group app_pattern1 m 2)"
    unfolding app_pattern1_def digits_n_def by simp
  ultimately show ?thesis using app_tier1_result[OF Some] by simp
next
  case n1: None
  show ?thesis
  proof (cases "re_search app_pattern2 (app_clean text)")
    case (Some m)
    from re_search_sound[OF Some] have f: "fits app_pattern2 m" by blast
    from full_pattern2_classification[OF f[unfolded app_pattern2_def]]
    have c: "digits_n 3 (match_group app_pattern2 m 2)"
      unfolding app_pattern2_def digits_n_def by simp
    from app_tier2_result[OF n1 Some] obtain a b c' d where
      d: "is_digit a" "is_digit b" "is_digit c'" "is_digit d" and
      p: "app_parse_japanese_license_plate text =
             [''region'' \<mapsto> match_group app_pattern2 m 1, ''classification'' \<mapsto> match_group app_pattern2 m 2,
              ''hiragana'' \<mapsto> match_group app_pattern2 m 3, ''number'' \<mapsto> [a, b, 0x2D, c', d],
              ''full_text'' \<mapsto> app_clean text]"
      by blast
    have "serial_shape is_digit sep3 [a, b, 0x2D, c', d]" using d sep_hyphen by simp
    with c p show ?thesis by simp
  next
    case n2: None
    let ?c = "app_clean text"
    let ?r = "app_hiragana_step ?c (region_loop app_regions ?c (init_result ?c))"
    have r: "?r ''number'' = Some []" "?r ''classification'' = Some []"
      by (simp_all add: app_hiragana_step_other region_loop_other init_result_def)
    have p: "app_parse_japanese_license_plate text =
        app_number_loop (enumerate 0 app_number_patterns) ?c ?r"
      using app_parse_tier3[OF n1 n2] by (simp add: app_tier3_def)
    show ?thesis
    proof (cases "re_search (app_number_patterns ! 0) ?c")
      case (Some m)
      from search_serial[OF Some[unfolded app_number_patterns_nth]]
      have "serial_shape is_digit sep3 (concat m)" by simp
      with Some r show ?thesis unfolding p app_number_loop_eq by simp
    next
      case p0: None
      show ?thesis
      proof (cases "re_search (app_number_patterns ! 1) ?c")
        case (Some m)
        from search_single[OF Some[unfolded app_number_patterns_nth]] obtain e where
          "m = [e]" "length e = 4" "list_all is_digit e" by blast
        then obtain a b c' d where "concat m = [a, b, c', d]"
          "is_digit a" "is_digit b" "is_digit c'" "is_digit d"
          by (auto simp: length_4_conv)
        then have "serial_shape is_digit sep3 (take 2 (concat m) @ [0x2D] @ drop 2 (concat m))"
          using sep_hyphen by simp
        with Some p0 r show ?thesis unfolding p app_number_loop_eq by simp
      next
        case p1: None
        show ?thesis
        proof (cases "re_search (app_number_patterns ! 2) ?c")
          case (Some m)
          from search_single[OF Some[unfolded app_number_patterns_nth]] obtain e where
            "m = [e]" "length e = 3" "list_all is_digit e" by blast
          then have "digits_n 3 (concat m)" by (simp add: digits_n_def)
          with Some p0 p1 r show ?thesis unfolding p app_number_loop_eq by simp
        next
          case None
          with p0 p1 r show ?thesis unfolding p app_number_loop_eq by simp
        qed
      qed
    qed
  qed
qed


lemma ocr_number_patterns_nth:
  "ocr_number_patterns ! 0 = [Piece is_digit 1 (Some 2) 1, Piece sep2 1 (Some 1) 1, Piece is_digit 2 (Some 2) 1]"
  "ocr_number_patterns ! 1 = [Piece is_digit 4 (Some 4) 1]"
  "ocr_number_patterns ! 2 = [Piece is_digit 3 (Some 3) 1]"
  by (simp_all add: ocr_number_patterns_def)

lemma serial_shape_length: "serial_shape D S s \<Longrightarrow> length s = 4 \<or> length s = 5"
  by (induction D S s rule: serial_shape.induct) auto

lemma ocr_number_loop_eq:
  "ocr_number_loop ocr_number_patterns c r =
     (case re_search (ocr_number_patterns ! 0) c of
        Some m \<Rightarrow>
          if length (concat m) = 4 \<and> \<not> py_in [0x2D] (concat m)
          then r(''number'' \<mapsto> take 2 (concat m) @ [0x2D] @ drop 2 (concat m))
          else r(''number'' \<mapsto> concat m)
      | None \<Rightarrow>
          (case re_search (ocr_number_patterns ! 1) c of
             Some m \<Rightarrow> r(''number'' \<mapsto> take 2 (concat m) @ [0x2D] @ drop 2 (concat m))
           | None \<Rightarrow>
               (case re_search (ocr_number_patterns ! 2) c of
                  Some m \<Rightarrow> r(''classification'' \<mapsto> concat m)
                | None \<Rightarrow> r)))"
proof -
  let ?p0 = "[Piece is_digit 1 (Some 2) 1, Piece sep2 1 (Some 1) 1, Piece is_digit 2 (Some 2) 1]"
  let ?p1 = "[Piece is_digit 4 (Some 4) 1]"
  let ?p2 = "[Piece is_digit 3 (Some 3) 1]"
  show ?thesis
  proof (cases "re_search ?p0 c")
    case (Some m)
    from search_serial[OF Some] have g: "match_group ?p0 m 1 = concat m"
      and "serial_shape is_digit sep2 (concat m)" by simp_all
    then have "length (concat m) \<noteq> 3" using serial_shape_length by fastforce
    with Some g show ?thesis
      unfolding ocr_number_patterns_eq ocr_number_patterns_nth
      by (simp add: Let_def del: fun_upd_apply)
  next
    case p0: None
    show ?thesis
    proof (cases "re_search ?p1 c")
      case (Some m)
      from search_single[OF Some] obtain d where d: "m = [d]" "length d = 4" "list_all is_digit d"
        "match_group ?p1 m 1 = d" by blast
      then have "0x2D \<notin> set d" using not_digit_hyphen by (auto simp: list_all_iff)
      with Some p0 d show ?thesis
        unfolding ocr_number_patterns_eq ocr_number_patterns_nth
        by (simp add: Let_def py_in_single del: fun_upd_apply)
    next
      case p1: None
      show ?thesis
      proof (cases "re_search ?p2 c")
        case (Some m)
        from search_single[OF Some] obtain d where "m = [d]" "length d = 3" "match_group ?p2 m 1 = d"
          by blast
        with Some p0 p1 show ?thesis
          unfolding ocr_number_patterns_eq ocr_number_patterns_nth
          by (simp add: Let_def del: fun_upd_apply)
      next
        case None
        with p0 p1 show ?thesis
          unfolding ocr_number_patterns_eq ocr_number_patterns_nth
          by (simp del: fun_upd_apply)
      qed
    qed
  qed
qed

lemma ocr_formats:
  "(\<exists>cl. ocr_parse_japanese_license_plate text ''classification'' = Some cl \<and>
      (cl = [] \<or> digits_n 3 cl)) \<and>
   (\<not> ocr_short_minus_serial text \<longrightarrow>
      (\<exists>n. ocr_parse_japanese_license_plate text ''number'' = Some n \<and>
         (n = [] \<or> serial_shape is_digit sep2 n)))"
proof (cases "re_search ocr_pattern1 (ocr_clean text)")
  case (Some m)
  from re_search_sound[OF Some] obtain pre post where
    f: "fits ocr_pattern1 m" and s: "ocr_clean text = pre @ concat m @ post" by blast
  from tier1_serial[OF f[unfolded ocr_pattern1_def] s]
  have "serial_shape is_digit sep2 (match_group ocr_pattern1 m 4)"
    unfolding ocr_pattern1_def by simp
  moreover from full_pattern_classification[OF f[unfolded ocr_pattern1_def]]
  have "digits_n 3 (match_group ocr_pattern1 m 2)"
    unfolding ocr_pattern1_def digits_n_def by simp
  ultimately show ?thesis using ocr_tier1_result[OF Some] by simp
next
  case n1: None
  show ?thesis
  proof (cases "re_search ocr_pattern2 (ocr_clean text)")
    case (Some m)
    from re_search_sound[OF Some] have f: "fits ocr_pattern2 m" by blast
    from full_pattern2_classification[OF f[unfolded ocr_pattern2_def]]
    have c: "digits_n 3 (match_group ocr_pattern2 m 2)"
      unfolding ocr_pattern2_def digits_n_def by simp
    from ocr_tier2_result[OF n1 Some] obtain a b c' d where
      d: "is_digit a" "is_digit b" "is_digit c'" "is_digit d" and
      p: "ocr_parse_japanese_license_plate text =
             [''region'' \<mapsto> match_group ocr_pattern2 m 1, ''classification'' \<mapsto> match_group ocr_pattern2 m 2,
              ''hiragana'' \<mapsto> match_group ocr_pattern2 m 3, ''number'' \<mapsto> [a, b, 0x2D, c', d],
              ''full_text'' \<mapsto> ocr_clean text]"
      by blast
    have "serial_shape is_digit sep2 [a, b, 0x2D, c', d]" using d sep_hyphen by simp
    with c p show ?thesis by simp
  next
    case n2: None
    let ?c = "ocr_clean text"
    let ?r = "ocr_hiragana_step ?c (region_loop ocr_regions ?c (init_result ?c))"
    have r: "?r ''number'' = Some []" "?r ''classification'' = Some []"
      by (simp_all add: ocr_hiragana_step_other region_loop_other init_result_def)
    have p: "ocr_parse_japanese_license_plate text = ocr_number_loop ocr_number_patterns ?c ?r"
      using ocr_parse_tier3[OF n1 n2] by (simp add: ocr_tier3_def)
    show ?thesis
    proof (cases "re_search (ocr_number_patterns ! 0) ?c")
      case (Some m)
      from search_serial[OF Some[unfolded ocr_number_patterns_nth]]
      have sh: "serial_shape is_digit sep2 (concat m)" by simp
      show ?thesis
      proof (cases "length (concat m) = 4 \<and> \<not> py_in [0x2D] (concat m)")
        case True
        with n1 n2 Some have "ocr_short_minus_serial text"
          by (simp add: ocr_short_minus_serial_def)
        with Some True r show ?thesis unfolding p ocr_number_loop_eq by simp
      next
        case False
        with Some sh r show ?thesis unfolding p ocr_number_loop_eq by auto
      qed
    next
      case p0: None
      show ?thesis
      proof (cases "re_search (ocr_number_patterns ! 1) ?c")
        case (Some m)
        from search_single[OF Some[unfolded ocr_number_patterns_nth]] obtain e where
          "m = [e]" "length e = 4" "list_all is_digit e" by blast
        then obtain a b c' d where "concat m = [a, b, c', d]"
          "is_digit a" "is_digit b" "is_digit c'" "is_digit d"
          by (auto simp: length_4_conv)
        then have "serial_shape is_digit sep2 (take 2 (concat m) @ [0x2D] @ drop 2 (concat m))"
          using sep_hyphen by simp
        with Some p0 r show ?thesis unfolding p ocr_number_loop_eq by simp
      next
        case p1: None
        show ?thesis
        proof (cases "re_search (ocr_number_patterns ! 2) ?c")
          case (Some m)
          from search_single[OF Some[unfolded ocr_number_patterns_nth]] obtain e where
            "m = [e]" "length e = 3" "list_all is_digit e" by blast
          then have "digits_n 3 (concat m)" by (simp add: digits_n_def)
          with Some p0 p1 r show ?thesis unfolding p ocr_number_loop_eq by simp
        next
          case None
          with p0 p1 r show ?thesis unfolding p ocr_number_loop_eq by simp
        qed
      qed
    qed
  qed
qed

lemma simple_formats:
  "\<exists>cl n. parse_simple_plate text ''classification'' = Some cl \<and>
     (cl = [] \<or> digits_n 3 cl) \<and>
     parse_simple_plate text ''number'' = Some n \<and>
     (n = [] \<or> serial_shape is_digit sep3 n \<or> digits_n 3 n \<or> digits_n 4 n)"
proof -
  let ?c = "app_clean text"
  let ?r1 = "region_loop simple_regions ?c (init_result ?c)"
  let ?r2 = "simple_step simple_number_pattern ''number'' ?c ?r1"
  let ?r3 = "simple_step app_hiragana_pattern ''hiragana'' ?c ?r2"
  have p: "parse_simple_plate text = simple_step simple_class_pattern ''classification'' ?c ?r3"
    by (simp add: parse_simple_plate_def Let_def)
  have "\<exists>n. ?r2 ''number'' = Some n \<and>
      (n = [] \<or> serial_shape is_digit sep3 n \<or> digits_n 3 n \<or> digits_n 4 n)"
  proof (cases "re_search simple_number_pattern ?c")
    case None
    then show ?thesis by (simp add: simple_step_def region_loop_other init_result_def)
  next
    case (Some m)
    from re_search_sound[OF Some] have "fits simple_number_pattern m" by blast
    from optional_serial_shape[OF this[unfolded simple_number_pattern_def]]
    obtain d1 sp d2 where m: "m = [d1, sp, d2]" and
      d: "1 \<le> length d1" "length d1 \<le> 2" "list_all is_digit d1"
         "sp = [] \<or> (\<exists>x. sp = [x] \<and> sep3 x)" "length d2 = 2" "list_all is_digit d2" and
      g: "match_group simple_number_pattern m 1 = concat m"
      unfolding simple_number_pattern_def by blast
    from d(4) have "serial_shape is_digit sep3 (concat m) \<or> digits_n 3 (concat m) \<or> digits_n 4 (concat m)"
    proof
      assume "sp = []"
      with m d show ?thesis by (auto simp: digits_n_def)
    next
      assume "\<exists>x. sp = [x] \<and> sep3 x"
      then obtain x where x: "sp = [x]" "sep3 x" by blast
      have "serial_shape is_digit sep3 (d1 @ [x] @ d2)"
        using d(1,2,3) x(2) d(5,6) by (rule serial_shapeI)
      with m x show ?thesis by simp
    qed
    with Some g show ?thesis by (simp add: simple_step_def)
  qed
  then have n: "\<exists>n. parse_simple_plate text ''number'' = Some n \<and>
      (n = [] \<or> serial_shape is_digit sep3 n \<or> digits_n 3 n \<or> digits_n 4 n)"
    unfolding p by (simp add: simple_step_other)
  have "\<exists>cl. parse_simple_plate text ''classification'' = Some cl \<and> (cl = [] \<or> digits_n 3 cl)"
  proof (cases "re_search simple_class_pattern ?c")
    case None
    then have "simple_step simple_class_pattern ''classification'' ?c ?r3 = ?r3"
      by (simp only: simple_step_def option.case)
    moreover have "?r3 ''classification'' = Some []"
      by (simp add: simple_step_other region_loop_other init_result_def)
    ultimately show ?thesis unfolding p by simp
  next
    case (Some m)
    from search_single[OF Some[unfolded simple_class_pattern_def]] obtain e where
      "m = [e]" "length e = 3" "list_all is_digit e"
      "match_group simple_class_pattern m 1 = e"
      unfolding simple_class_pattern_def by blast
    with Some show ?thesis unfolding p by (simp add: simple_step_def digits_n_def)
  qed
  with n show ?thesis by blast
qed


lemma dd_dd_digits:
  "is_digit a \<Longrightarrow> is_digit b \<Longrightarrow> is_digit c \<Longrightarrow> is_digit d \<Longrightarrow> dd_dd [a, b, 0x2D, c, d]"
  by simp

lemma tier2_digits_occur:
  assumes m: "re_search p c = Some m"
    and p: "p = [Piece R 1 (Some n) 1, Piece W1 0 None 0, Piece C 3 (Some 3) 2, Piece W2 0 None 0,
      Piece H 1 (Some 1) 3, Piece W3 0 None 0, Piece D 4 (Some 4) 4]"
  shows "occurs (match_group p m 4) c"
proof -
  from re_search_sound[OF m] obtain u v where f: "fits p m" and c: "c = u @ concat m @ v"
    by blast
  from tier2_shape[OF f[unfolded p]] obtain r w1 cl w2 h w3 d where
    m_eq: "m = [r, w1, cl, w2, [h], w3, d]" by blast
  have "c = (u @ r @ w1 @ cl @ w2 @ [h] @ w3) @ d @ v" using c m_eq by simp
  then have "occurs d c" unfolding occurs_def by blast
  then show ?thesis unfolding p m_eq by (simp add: match_group_def)
qed

lemma four_digits_found:
  assumes "re_search [Piece is_digit 4 (Some 4) 1] c = Some m"
  shows "\<exists>a b c' d. concat m = [a, b, c', d] \<and> is_digit a \<and> is_digit b \<and> is_digit c' \<and>
           is_digit d \<and> occurs [a, b, c', d] c"
proof -
  from search_single[OF assms] obtain e u v where
    e: "m = [e]" "length e = 4" "list_all is_digit e" "c = u @ e @ v" by blast
  from e(2) obtain a b c' d where d: "e = [a, b, c', d]" by (auto simp: length_4_conv)
  from e(4) have "occurs e c" unfolding occurs_def by blast
  with e d show ?thesis by simp
qed

lemma app_number_origin:
  "(synthesizes app_pattern1 app_pattern2 app_number_patterns (app_clean text) \<longrightarrow>
      (\<exists>a b c d. is_digit a \<and> is_digit b \<and> is_digit c \<and> is_digit d \<and>
         occurs [a, b, c, d] (app_clean text) \<and>
         app_parse_japanese_license_plate text ''number'' = Some [a, b, 0x2D, c, d] \<and>
         dd_dd [a, b, 0x2D, c, d])) \<and>
   (\<not> synthesizes app_pattern1 app_pattern2 app_number_patterns (app_clean text) \<longrightarrow>
      (\<exists>n. app_parse_japanese_license_plate text ''number'' = Some n \<and>
         (n = [] \<or> serial_shape is_digit sep3 n \<and> occurs n (app_clean text))))"
proof (cases "re_search app_pattern1 (app_clean text)")
  case (Some m)
  from re_search_sound[OF Some] obtain pre post where
    f: "fits app_pattern1 m" and s: "app_clean text = pre @ concat m @ post" by blast
  from tier1_serial[OF f[unfolded app_pattern1_def] s]
  have "serial_shape is_digit sep3 (match_group app_pattern1 m 4)"
    "occurs (match_group app_pattern1 m 4) (app_clean text)"
    unfolding app_pattern1_def by simp_all
  moreover have "\<not> synthesizes app_pattern1 app_pattern2 app_number_patterns (app_clean text)"
    using Some by (simp add: synthesizes_def)
  ultimately show ?thesis using app_tier1_result[OF Some] by simp
next
  case n1: None
  show ?thesis
  proof (cases "re_search app_pattern2 (app_clean text)")
    case (Some m)
    from app_tier2_result[OF n1 Some] obtain a b c' d where
      g: "match_group app_pattern2 m 4 = [a, b, c', d]" and
      d: "is_digit a" "is_digit b" "is_digit c'" "is_digit d" and
      p: "app_parse_japanese_license_plate text ''number'' = Some [a, b, 0x2D, c', d]"
      by auto
    from tier2_digits_occur[OF Some app_pattern2_def] g
    have "occurs [a, b, c', d] (app_clean text)" by simp
    moreover have "synthesizes app_pattern1 app_pattern2 app_number_patterns (app_clean text)"
      using n1 Some by (simp add: synthesizes_def)
    ultimately show ?thesis using d p dd_dd_digits[OF d] by blast
  next
    case n2: None
    let ?c = "app_clean text"
    let ?r = "app_hiragana_step ?c (region_loop app_regions ?c (init_result ?c))"
    have r: "?r ''number'' = Some []"
      by (simp add: app_hiragana_step_other region_loop_other init_result_def)
    have p: "app_parse_japanese_license_plate text =
        app_number_loop (enumerate 0 app_number_patterns) ?c ?r"
      using app_parse_tier3[OF n1 n2] by (simp add: app_tier3_def)
    show ?thesis
    proof (cases "re_search (app_number_patterns ! 0) ?c")
      case (Some m)
      from search_serial[OF Some[unfolded app_number_patterns_nth]]
      have "serial_shape is_digit sep3 (concat m)" "occurs (concat m) ?c" by simp_all
      moreover have "\<not> synthesizes app_pattern1 app_pattern2 app_number_patterns ?c"
        using n2 Some by (simp add: synthesizes_def)
      ultimately show ?thesis using Some unfolding p app_number_loop_eq by simp
    next
      case p0: None
      show ?thesis
      proof (cases "re_search (app_number_patterns ! 1) ?c")
        case (Some m)
        from four_digits_found[OF Some[unfolded app_number_patterns_nth]] obtain a b c' d where
          e: "concat m = [a, b, c', d]" and
          d: "is_digit a" "is_digit b" "is_digit c'" "is_digit d" and
          o: "occurs [a, b, c', d] ?c" by blast
        have "synthesizes app_pattern1 app_pattern2 app_number_patterns ?c"
          using n1 p0 Some by (simp add: synthesizes_def)
        moreover have "app_parse_japanese_license_plate text ''number'' = Some [a, b, 0x2D, c', d]"
          using Some p0 e unfolding p app_number_loop_eq by simp
        ultimately show ?thesis using d o dd_dd_digits[OF d] by blast
      next
        case p1: None
        have "\<not> synthesizes app_pattern1 app_pattern2 app_number_patterns ?c"
          using n2 p1 by (simp add: synthesizes_def)
        moreover have "app_parse_japanese_license_plate text ''number'' = Some []"
          using p0 p1 r unfolding p app_number_loop_eq by (simp split: option.splits)
        ultimately show ?thesis by simp
      qed
    qed
  qed
qed

lemma ocr_number_origin:
  "(synthesizes ocr_pattern1 ocr_pattern2 ocr_number_patterns (ocr_clean text) \<longrightarrow>
      (\<exists>a b c d. is_digit a \<and> is_digit b \<and> is_digit c \<and> is_digit d \<and>
         occurs [a, b, c, d] (ocr_clean text) \<and>
         ocr_parse_japanese_license_plate text ''number'' = Some [a, b, 0x2D, c, d] \<and>
         dd_dd [a, b, 0x2D, c, d])) \<and>
   (\<not> synthesizes ocr_pattern1 ocr_pattern2 ocr_number_patterns (ocr_clean text) \<and>
    \<not> ocr_short_minus_serial text \<longrightarrow>
      (\<exists>n. ocr_parse_japanese_license_plate text ''number'' = Some n \<and>
         (n = [] \<or> serial_shape is_digit sep2 n \<and> occurs n (ocr_clean text))))"
proof (cases "re_search ocr_pattern1 (ocr_clean text)")
  case (Some m)
  from re_search_sound[OF Some] obtain pre post where
    f: "fits ocr_pattern1 m" and s: "ocr_clean text = pre @ concat m @ post" by blast
  from tier1_serial[OF f[unfolded ocr_pattern1_def] s]
  have "serial_shape is_digit sep2 (match_group ocr_pattern1 m 4)"
    "occurs (match_group ocr_pattern1 m 4) (ocr_clean text)"
    unfolding ocr_pattern1_def by simp_all
  moreover have "\<not> synthesizes ocr_pattern1 ocr_pattern2 ocr_number_patterns (ocr_clean text)"
    using Some by (simp add: synthesizes_def)
  ultimately show ?thesis using ocr_tier1_result[OF Some] by simp
next
  case n1: None
  show ?thesis
  proof (cases "re_search ocr_pattern2 (ocr_clean text)")
    case (Some m)
    from ocr_tier2_result[OF n1 Some] obtain a b c' d where
      g: "match_group ocr_pattern2 m 4 = [a, b, c', d]" and
      d: "is_digit a" "is_digit b" "is_digit c'" "is_digit d" and
      p: "ocr_parse_japanese_license_plate text ''number'' = Some [a, b, 0x2D, c', d]"
      by auto
    from tier2_digits_occur[OF Some ocr_pattern2_def] g
    have "occurs [a, b, c', d] (ocr_clean text)" by simp
    moreover have "synthesizes ocr_pattern1 ocr_pattern2 ocr_number_patterns (ocr_clean text)"
      using n1 Some by (simp add: synthesizes_def)
    ultimately show ?thesis using d p dd_dd_digits[OF d] by blast
  next
    case n2: None
    let ?c = "ocr_clean text"
    let ?r = "ocr_hiragana_step ?c (region_loop ocr_regions ?c (init_result ?c))"
    have r: "?r ''number'' = Some []"
      by (simp add: ocr_hiragana_step_other region_loop_other init_result_def)
    have p: "ocr_parse_japanese_license_plate text = ocr_number_loop ocr_number_patterns ?c ?r"
      using ocr_parse_tier3[OF n1 n2] by (simp add: ocr_tier3_def)
    show ?thesis
    proof (cases "re_search (ocr_number_patterns ! 0) ?c")
      case (Some m)
      from search_serial[OF Some[unfolded ocr_number_patterns_nth]]
      have sh: "serial_shape is_digit sep2 (concat m)" "occurs (concat m) ?c" by simp_all
      have ns: "\<not> synthesizes ocr_pattern1 ocr_pattern2 ocr_number_patterns ?c"
        using n2 Some by (simp add: synthesizes_def)
      show ?thesis
      proof (cases "length (concat m) = 4 \<and> \<not> py_in [0x2D] (concat m)")
        case True
        with n1 n2 Some have "ocr_short_minus_serial text"
          by (simp add: ocr_short_minus_serial_def)
        with ns show ?thesis by simp
      next
        case False
        then have "ocr_parse_japanese_license_plate text ''number'' = Some (concat m)"
          using Some unfolding p ocr_number_loop_eq by auto
        with sh ns show ?thesis by simp
      qed
    next
      case p0: None
      show ?thesis
      proof (cases "re_search (ocr_number_patterns ! 1) ?c")
        case (Some m)
        from four_digits_found[OF Some[unfolded ocr_number_patterns_nth]] obtain a b c' d where
          e: "concat m = [a, b, c', d]" and
          d: "is_digit a" "is_digit b" "is_digit c'" "is_digit d" and
          o: "occurs [a, b, c', d] ?c" by blast
        have "synthesizes ocr_pattern1 ocr_pattern2 ocr_number_patterns ?c"
          using n1 p0 Some by (simp add: synthesizes_def)
        moreover have "ocr_parse_japanese_license_plate text ''number'' = Some [a, b, 0x2D, c', d]"
          using Some p0 e unfolding p ocr_number_loop_eq by simp
        ultimately show ?thesis using d o dd_dd_digits[OF d] by blast
      next
        case p1: None
        have "\<not> synthesizes ocr_pattern1 ocr_pattern2 ocr_number_patterns ?c"
          using n2 p1 by (simp add: synthesizes_def)
        moreover have "ocr_parse_japanese_license_plate text ''number'' = Some []"
          using p0 p1 r unfolding p ocr_number_loop_eq by (simp split: option.splits)
        ultimately show ?thesis by simp
      qed
    qed
  qed
qed

text \<open>
  The partial matching of \<open>ocr.py\<close> takes a serial of four characters without a
  hyphen-minus for four digits: one digit, U+2212 and two digits get a hyphen-minus
  inserted after the second character.
\<close>

lemma short_minus_slip:
  "ocr_short_minus_serial [0x31, 0x2212, 0x32, 0x33]"
  "ocr_parse_japanese_license_plate [0x31, 0x2212, 0x32, 0x33] ''number''
     = Some [0x31, 0x2212, 0x2D, 0x32, 0x33]"
  by (simp_all add: ocr_short_minus_serial_def ocr_defs engine_defs class_defs)

lemma short_serial_ocr:
  "ocr_parse_japanese_license_plate (plate_with [0x31, 0x2D, 0x32, 0x33]) ''number''
     = Some [0x31, 0x2D, 0x32, 0x33]"
  "\<not> ocr_short_minus_serial (plate_with [0x31, 0x2D, 0x32, 0x33])"
  by (simp_all add: plate_with_def ocr_short_minus_serial_def ocr_defs engine_defs class_defs)

lemma four_digit_plate:
  "synthesizes app_pattern1 app_pattern2 app_number_patterns (app_clean (plate_with [0x31, 0x32, 0x33, 0x34]))"
  "synthesizes ocr_pattern1 ocr_pattern2 ocr_number_patterns (ocr_clean (plate_with [0x31, 0x32, 0x33, 0x34]))"
  "app_parse_japanese_license_plate (plate_with [0x31, 0x32, 0x33, 0x34]) ''number'' = Some [0x31, 0x32, 0x2D, 0x33, 0x34]"
  "ocr_parse_japanese_license_plate (plate_with [0x31, 0x32, 0x33, 0x34]) ''number'' = Some [0x31, 0x32, 0x2D, 0x33, 0x34]"
  by (simp_all add: synthesizes_def plate_with_def app_defs ocr_defs engine_defs class_defs)

lemma short_serial_plate:
  "\<not> synthesizes app_pattern1 app_pattern2 app_number_patterns (app_clean (plate_with [0x31, 0x2D, 0x32, 0x33]))"
  "\<not> synthesizes ocr_pattern1 ocr_pattern2 ocr_number_patterns (ocr_clean (plate_with [0x31, 0x2D, 0x32, 0x33]))"
  "app_parse_japanese_license_plate (plate_with [0x31, 0x2D, 0x32, 0x33]) ''number'' = Some [0x31, 0x2D, 0x32, 0x33]"
  by (simp_all add: synthesizes_def plate_with_def app_defs ocr_defs engine_defs class_defs)

text \<open>
  Claim C9, as the code has it. For every input the classification is empty or three
  characters of the class \<open>\d\<close>. The number is empty or a serial of one or two digits, one
  of the parser's separators as written, and two digits; \<open>parse_simple_plate\<close>, whose
  separator is optional, also returns three or four digits in a row as number. Where
  \<open>app.py\<close> or \<open>ocr.py\<close> builds the number from four digits in a row of the cleaned text,
  in the second full pattern or in the partial matching, the number is the first two of
  these digits, a hyphen-minus and the last two, of the shape DD-DD; everywhere else the
  number is empty or a serial that stands in the cleaned text as it is returned. In
  \<open>ocr.py\<close> the statements about a number that is not built from four digits are made
  for the inputs other than those where the partial matching finds a serial of one digit,
  U+2212 and two digits.
\<close>

theorem field_formats:
  "(\<exists>cl n. app_parse_japanese_license_plate text ''classification'' = Some cl \<and>
      (cl = [] \<or> digits_n 3 cl) \<and>
      app_parse_japanese_license_plate text ''number'' = Some n \<and>
      (n = [] \<or> serial_shape is_digit sep3 n)) \<and>
   (\<exists>cl. ocr_parse_japanese_license_plate text ''classification'' = Some cl \<and>
      (cl = [] \<or> digits_n 3 cl)) \<and>
   (\<not> ocr_short_minus_serial text \<longrightarrow>
      (\<exists>n. ocr_parse_japanese_license_plate text ''number'' = Some n \<and>
         (n = [] \<or> serial_shape is_digit sep2 n))) \<and>
   (\<exists>cl n. parse_simple_plate text ''classification'' = Some cl \<and>
      (cl = [] \<or> digits_n 3 cl) \<and>
      parse_simple_plate text ''number'' = Some n \<and>
      (n = [] \<or> serial_shape is_digit sep3 n \<or> digits_n 3 n \<or> digits_n 4 n)) \<and>
   (synthesizes app_pattern1 app_pattern2 app_number_patterns (app_clean text) \<longrightarrow>
      (\<exists>a b c d. is_digit a \<and> is_digit b \<and> is_digit c \<and> is_digit d \<and>
         occurs [a, b, c, d] (app_clean text) \<and>
         app_parse_japanese_license_plate text ''number'' = Some [a, b, 0x2D, c, d] \<and>
         dd_dd [a, b, 0x2D, c, d])) \<and>
   (\<not> synthesizes app_pattern1 app_pattern2 app_number_patterns (app_clean text) \<longrightarrow>
      (\<exists>n. app_parse_japanese_license_plate text ''number'' = Some n \<and>
         (n = [] \<or> serial_shape is_digit sep3 n \<and> occurs n (app_clean text)))) \<and>
   (synthesizes ocr_pattern1 ocr_pattern2 ocr_number_patterns (ocr_clean text) \<longrightarrow>
      (\<exists>a b c d. is_digit a \<and> is_digit b \<and> is_digit c \<and> is_digit d \<and>
         occurs [a, b, c, d] (ocr_clean text) \<and>
         ocr_parse_japanese_license_plate text ''number'' = Some [a, b, 0x2D, c, d] \<and>
         dd_dd [a, b, 0x2D, c, d])) \<and>
   (\<not> synthesizes ocr_pattern1 ocr_pattern2 ocr_number_patterns (ocr_clean text) \<and>
    \<not> ocr_short_minus_serial text \<longrightarrow>
      (\<exists>n. ocr_parse_japanese_license_plate text ''number'' = Some n \<and>
         (n = [] \<or> serial_shape is_digit sep2 n \<and> occurs n (ocr_clean text))))"
proof -
  note f = app_formats[of "text"] ocr_formats[of "text"] simple_formats[of "text"]
  note g = app_number_origin[of "text"] ocr_number_origin[of "text"]
  from f(2) have o: "\<exists>cl. ocr_parse_japanese_license_plate text ''classification'' = Some cl \<and>
      (cl = [] \<or> digits_n 3 cl)"
    "\<not> ocr_short_minus_serial text \<longrightarrow>
      (\<exists>n. ocr_parse_japanese_license_plate text ''number'' = Some n \<and>
         (n = [] \<or> serial_shape is_digit sep2 n))"
    by (rule conjunct1, rule conjunct2)
  from f(1) o f(3) g(1)[THEN conjunct1] g(1)[THEN conjunct2] g(2)[THEN conjunct1]
    g(2)[THEN conjunct2]
  show ?thesis by (intro conjI)
qed

theorem field_formats_witness:
  "\<not> ocr_short_minus_serial (plate_with [0x31, 0x2D, 0x32, 0x33]) \<and>
   \<not> synthesizes app_pattern1 app_pattern2 app_number_patterns
       (app_clean (plate_with [0x31, 0x2D, 0x32, 0x33])) \<and>
   \<not> synthesizes ocr_pattern1 ocr_pattern2 ocr_number_patterns
       (ocr_clean (plate_with [0x31, 0x2D, 0x32, 0x33])) \<and>
   (\<exists>n. app_parse_japanese_license_plate (plate_with [0x31, 0x2D, 0x32, 0x33]) ''number'' = Some n \<and>
      (n = [] \<or> serial_shape is_digit sep3 n \<and>
         occurs n (app_clean (plate_with [0x31, 0x2D, 0x32, 0x33])))) \<and>
   (\<exists>n. ocr_parse_japanese_license_plate (plate_with [0x31, 0x2D, 0x32, 0x33]) ''number'' = Some n \<and>
      (n = [] \<or> serial_shape is_digit sep2 n \<and>
         occurs n (ocr_clean (plate_with [0x31, 0x2D, 0x32, 0x33])))) \<and>
   serial_shape is_digit sep2 [0x31, 0x2D, 0x32, 0x33] \<and>
   synthesizes app_pattern1 app_pattern2 app_number_patterns
       (app_clean (plate_with [0x31, 0x32, 0x33, 0x34])) \<and>
   synthesizes ocr_pattern1 ocr_pattern2 ocr_number_patterns
       (ocr_clean (plate_with [0x31, 0x32, 0x33, 0x34])) \<and>
   (\<exists>a b c d. is_digit a \<and> is_digit b \<and> is_digit c \<and> is_digit d \<and>
      occurs [a, b, c, d] (app_clean (plate_with [0x31, 0x32, 0x33, 0x34])) \<and>
      app_parse_japanese_license_plate (plate_with [0x31, 0x32, 0x33, 0x34]) ''number''
        = Some [a, b, 0x2D, c, d] \<and>
      dd_dd [a, b, 0x2D, c, d]) \<and>
   (\<exists>a b c d. is_digit a \<and> is_digit b \<and> is_digit c \<and> is_digit d \<and>
      occurs [a, b, c, d] (ocr_clean (plate_with [0x31, 0x32, 0x33, 0x34])) \<and>
      ocr_parse_japanese_license_plate (plate_with [0x31, 0x32, 0x33, 0x34]) ''number''
        = Some [a, b, 0x2D, c, d] \<and>
      dd_dd [a, b, 0x2D, c, d]) \<and>
   app_parse_japanese_license_plate (plate_with [0x31, 0x32, 0x33, 0x34]) ''number''
     = Some [0x31, 0x32, 0x2D, 0x33, 0x34] \<and>
   ocr_parse_japanese_license_plate (plate_with [0x31, 0x32, 0x33, 0x34]) ''number''
     = Some [0x31, 0x32, 0x2D, 0x33, 0x34]"
proof -
  note t = field_formats[of "plate_with [0x31, 0x2D, 0x32, 0x33]"]
  note u = field_formats[of "plate_with [0x31, 0x32, 0x33, 0x34]"]
  note t' = t[THEN conjunct2, THEN conjunct2, THEN conjunct2, THEN conjunct2, THEN conjunct2]
  note u' = u[THEN conjunct2, THEN conjunct2, THEN conjunct2, THEN conjunct2]
  have s: "serial_shape is_digit sep2 [0x31, 0x2D, 0x32, 0x33]"
    by (simp add: class_defs)
  have a: "\<exists>n. app_parse_japanese_license_plate (plate_with [0x31, 0x2D, 0x32, 0x33]) ''number'' = Some n \<and>
      (n = [] \<or> serial_shape is_digit sep3 n \<and>
         occurs n (app_clean (plate_with [0x31, 0x2D, 0x32, 0x33])))"
    using t'[THEN conjunct1] short_serial_plate(1) by (rule mp)
  have b: "\<exists>n. ocr_parse_japanese_license_plate (plate_with [0x31, 0x2D, 0x32, 0x33]) ''number'' = Some n \<and>
      (n = [] \<or> serial_shape is_digit sep2 n \<and>
         occurs n (ocr_clean (plate_with [0x31, 0x2D, 0x32, 0x33])))"
    using t'[THEN conjunct2, THEN conjunct2] conjI[OF short_serial_plate(2) short_serial_ocr(2)]
    by (rule mp)
  have c: "\<exists>a b c d. is_digit a \<and> is_digit b \<and> is_digit c \<and> is_digit d \<and>
      occurs [a, b, c, d] (app_clean (plate_with [0x31, 0x32, 0x33, 0x34])) \<and>
      app_parse_japanese_license_plate (plate_with [0x31, 0x32, 0x33, 0x34]) ''number''
        = Some [a, b, 0x2D, c, d] \<and>
      dd_dd [a, b, 0x2D, c, d]"
    using u'[THEN conjunct1] four_digit_plate(1) by (rule mp)
  have d: "\<exists>a b c d. is_digit a \<and> is_digit b \<and> is_digit c \<and> is_digit d \<and>
      occurs [a, b, c, d] (ocr_clean (plate_with [0x31, 0x32, 0x33, 0x34])) \<and>
      ocr_parse_japanese_license_plate (plate_with [0x31, 0x32, 0x33, 0x34]) ''number''
        = Some [a, b, 0x2D, c, d] \<and>
      dd_dd [a, b, 0x2D, c, d]"
    using u'[THEN conjunct2, THEN conjunct2, THEN conjunct1] four_digit_plate(2) by (rule mp)
  from short_serial_ocr(2) short_serial_plate(1,2) a b s four_digit_plate(1,2) c d
    four_digit_plate(3,4)
  show ?thesis by (intro conjI)
qed

text \<open>
  Claim C9 as stated fails: a plate whose serial has one digit before the hyphen matches
  the first full pattern of \<open>ocr.py\<close>, and the number is the serial as written, which has
  four characters.
\<close>

theorem field_formats_counterexample:
  "ocr_parse_japanese_license_plate (plate_with [0x31, 0x2D, 0x32, 0x33]) ''number''
     = Some [0x31, 0x2D, 0x32, 0x33] \<and>
   \<not> dd_dd [0x31, 0x2D, 0x32, 0x33] \<and> [0x31, 0x2D, 0x32, 0x33] \<noteq> ([] :: ustring)"
  by (simp add: short_serial_ocr(1))

section \<open>The keys of the record and the fields left empty\<close>






































text \<open>
  What the later trace lines of \<open>app.py\<close> show besides the record: catalogue entries,
  a hiragana letter, and digits with a separator. None of them holds a surrogate.
\<close>

lemma trace_pieces_no_surrogate:
  "\<forall>r\<in>set app_regions. \<not> list_ex is_surrogate r"
  "hira_range c \<Longrightarrow> \<not> is_surrogate c"
  "is_digit c \<Longrightarrow> \<not> is_surrogate c"
  "sep3 c \<Longrightarrow> \<not> is_surrogate c"
     apply (simp add: app_regions_def is_surrogate_def)
    apply (simp add: hira_range_def is_surrogate_def)
   apply (auto simp: is_digit_def in_ranges_def digit_ranges_def is_surrogate_def)[1]
  apply (auto simp: sep3_def is_surrogate_def)
  done





section \<open>The normalizers\<close>

lemma survivors_simps:
  "survivors thr [] = []"
  "survivors thr (None # ls) = survivors thr ls"
  "survivors thr (Some (t, c) # ls) = (if thr < c then (t, c) # survivors thr ls else survivors thr ls)"
  by (simp_all add: survivors_def List.map_filter_simps)

lemma ocr_collect_eq: "ocr_collect lines = map fst (survivors float_0_5 lines)"
  by (induction lines rule: ocr_collect.induct) (simp_all add: survivors_simps)

lemma app_collect_eq:
  "app_collect lines = (map fst (survivors float_0_3 lines), map snd (survivors float_0_3 lines))"
  by (induction lines rule: app_collect.induct) (simp_all add: survivors_simps)

lemma zip_swap: "zip (map snd ps) (map fst ps) = map (\<lambda>(t, c). (c, t)) ps"
  by (induction ps) auto

lemma str_lt_iff: "str_lt xs ys \<longleftrightarrow> xs < ys"
  by (induction xs ys rule: str_lt.induct) auto

lemma tuple_lt_iff: "tuple_lt a b \<longleftrightarrow> a < b"
  by (cases a; cases b) (auto simp: tuple_lt_def str_lt_iff)

lemma insort_lt_eq: "insort_lt x ys = insort x ys"
  by (induction ys) (auto simp: tuple_lt_iff)

lemma stable_sort_eq: "stable_sort xs = sort xs"
  unfolding stable_sort_def sort_key_def
  by (induction xs) (simp_all add: insort_lt_eq)

lemma sorted_reverse_eq: "sorted_reverse xs = rev (sort xs)"
proof -
  have "sort (rev xs) = sort xs"
    by (rule properties_for_sort) simp_all
  then show ?thesis by (simp add: sorted_reverse_def stable_sort_eq)
qed

lemma sorted_reverse_mset: "mset (sorted_reverse xs) = mset xs"
  by (simp add: sorted_reverse_eq)

lemma sorted_reverse_sorted: "sorted_wrt (\<lambda>a b. \<not> tuple_lt a b) (sorted_reverse xs)"
proof -
  have "sorted_wrt (\<lambda>a b. b \<le> a) (rev (sort xs))"
    by (simp add: sorted_wrt_rev)
  then show ?thesis
    by (simp add: sorted_reverse_eq tuple_lt_iff not_less)
qed

lemma sorted_reverse_perm: "mset xs = mset ys \<Longrightarrow> sorted_reverse xs = sorted_reverse ys"
proof -
  assume "mset xs = mset ys"
  then have "sort ys = sort xs" by (intro properties_for_sort) simp_all
  then show ?thesis by (simp add: sorted_reverse_eq)
qed

lemma app_extract_eq:
  "app_extract_text_from_paddle_result (Some lines # rest) =
     py_join [0x20] (map snd (sorted_reverse (map (\<lambda>(t, c). (c, t)) (survivors float_0_3 lines))))"
  by (cases lines) (simp_all add: app_extract_text_from_paddle_result_def app_collect_eq zip_swap
      survivors_simps sorted_reverse_eq)

lemma ocr_extract_eq:
  "ocr_extract_text_from_paddle_result (Some lines # rest) =
     py_join [0x20] (map fst (survivors float_0_5 lines))"
  by (cases lines) (simp_all add: ocr_extract_text_from_paddle_result_def ocr_collect_eq
      survivors_simps)


lemma pair_le_fst: "\<not> tuple_lt a b \<Longrightarrow> fst b \<le> fst a"
  by (auto simp: tuple_lt_def split: if_splits)

lemma app_extract_sorted:
  "\<exists>S. mset S = mset (survivors float_0_3 lines) \<and> sorted_wrt (\<lambda>a b. snd b \<le> snd a) S \<and>
       app_extract_text_from_paddle_result (Some lines # rest) = py_join [0x20] (map fst S)"
proof -
  let ?swap = "\<lambda>(t, c). (c, t)" and ?undo = "\<lambda>(c :: rat, t :: ustring). (t, c)"
  let ?P = "sorted_reverse (map ?swap (survivors float_0_3 lines))"
  let ?S = "map ?undo ?P"
  have "mset ?S = image_mset ?undo (mset (map ?swap (survivors float_0_3 lines)))"
    by (simp add: sorted_reverse_mset)
  also have "\<dots> = mset (survivors float_0_3 lines)"
    by (simp add: multiset.map_comp comp_def case_prod_beta)
  finally have m: "mset ?S = mset (survivors float_0_3 lines)" .
  have "sorted_wrt (\<lambda>a b. fst b \<le> fst a) ?P"
    using sorted_reverse_sorted[of "map ?swap (survivors float_0_3 lines)"]
    by (rule sorted_wrt_mono_rel[rotated]) (simp add: pair_le_fst)
  then have s: "sorted_wrt (\<lambda>a b. snd b \<le> snd a) ?S"
    by (simp add: sorted_wrt_map case_prod_beta)
  have mf: "map fst ?S = map snd ?P" by (simp add: case_prod_beta)
  have "app_extract_text_from_paddle_result (Some lines # rest) = py_join [0x20] (map fst ?S)"
    by (simp only: app_extract_eq mf)
  with m s show ?thesis by blast
qed

lemma faint_survivors:
  "survivors float_0_5 faint_lines = []" "survivors float_0_3 faint_lines = []"
  by (simp_all add: faint_lines_def survivors_simps float_0_5_def float_0_3_def)

text \<open>
  Claim C5, as the code has it. Both normalizers discard every line whose confidence is
  at or below the threshold (0.5 in \<open>ocr.py\<close>, 0.3 in \<open>app.py\<close>) and join the texts of the
  surviving lines with single spaces; when the result is empty or no line survives, the
  text is empty. \<open>app.py\<close> orders the surviving lines by confidence, highest first;
  \<open>ocr.py\<close> keeps them in the order of the OCR result.
\<close>

theorem normalizer_filter_order:
  "ocr_extract_text_from_paddle_result (Some lines # rest) =
     py_join [0x20] (map fst (survivors float_0_5 lines)) \<and>
   (\<exists>S. mset S = mset (survivors float_0_3 lines) \<and> sorted_wrt (\<lambda>a b. snd b \<le> snd a) S \<and>
        app_extract_text_from_paddle_result (Some lines # rest) = py_join [0x20] (map fst S)) \<and>
   ocr_extract_text_from_paddle_result [] = [] \<and>
   ocr_extract_text_from_paddle_result (None # rest) = [] \<and>
   app_extract_text_from_paddle_result [] = [] \<and>
   app_extract_text_from_paddle_result (None # rest) = [] \<and>
   (survivors float_0_5 lines = [] \<longrightarrow>
      ocr_extract_text_from_paddle_result (Some lines # rest) = []) \<and>
   (survivors float_0_3 lines = [] \<longrightarrow>
      app_extract_text_from_paddle_result (Some lines # rest) = [])"
proof (intro conjI impI)
  show "ocr_extract_text_from_paddle_result (Some lines # rest) =
     py_join [0x20] (map fst (survivors float_0_5 lines))"
    by (rule ocr_extract_eq)
  show "\<exists>S. mset S = mset (survivors float_0_3 lines) \<and> sorted_wrt (\<lambda>a b. snd b \<le> snd a) S \<and>
        app_extract_text_from_paddle_result (Some lines # rest) = py_join [0x20] (map fst S)"
    by (rule app_extract_sorted)
  show "ocr_extract_text_from_paddle_result [] = []"
    "ocr_extract_text_from_paddle_result (None # rest) = []"
    by (simp_all add: ocr_extract_text_from_paddle_result_def)
  show "app_extract_text_from_paddle_result [] = []"
    "app_extract_text_from_paddle_result (None # rest) = []"
    by (simp_all add: app_extract_text_from_paddle_result_def)
  show "ocr_extract_text_from_paddle_result (Some lines # rest) = []"
    if "survivors float_0_5 lines = []"
    using that by (simp add: ocr_extract_eq)
  show "app_extract_text_from_paddle_result (Some lines # rest) = []"
    if "survivors float_0_3 lines = []"
    using that by (simp add: app_extract_eq sorted_reverse_def stable_sort_def)
qed

theorem normalizer_filter_order_witness:
  "survivors float_0_5 faint_lines = [] \<and> survivors float_0_3 faint_lines = [] \<and>
   ocr_extract_text_from_paddle_result [Some faint_lines] = [] \<and>
   app_extract_text_from_paddle_result [Some faint_lines] = []"
  using normalizer_filter_order[of faint_lines "[]"] faint_survivors by simp

lemma two_lines_ocr:
  "ocr_extract_text_from_paddle_result [Some two_lines] = [0x61, 0x20, 0x62]"
  "survivors float_0_5 two_lines = [([0x61], 3 / 4), ([0x62], 7 / 8)]"
  by (simp_all add: ocr_extract_text_from_paddle_result_def two_lines_def survivors_simps
      float_0_5_def)

text \<open>
  Claim C5 as stated fails on \<open>ocr.py\<close>: of two surviving lines the one with the lower
  confidence comes first in the text, as it does in the OCR result.
\<close>

theorem normalizer_filter_order_counterexample:
  "survivors float_0_5 two_lines = [([0x61], 3 / 4), ([0x62], 7 / 8)] \<and>
   (3 / 4 :: rat) < 7 / 8 \<and>
   ocr_extract_text_from_paddle_result [Some two_lines] = [0x61, 0x20, 0x62] \<and>
   ocr_extract_text_from_paddle_result [Some two_lines] \<noteq> [0x62, 0x20, 0x61]"
  by (simp add: two_lines_ocr)

lemma tied_lines_app:
  "app_extract_text_from_paddle_result [Some tied_lines] = [0x62, 0x20, 0x61]"
  by (simp add: app_extract_text_from_paddle_result_def tied_lines_def float_0_3_def
      sorted_reverse_def stable_sort_def tuple_lt_def)

lemma tied_sorted:
  "sorted_reverse [(7 / 8, [0x61]), (7 / 8, [0x62])] = [(7 / 8, [0x62]), (7 / 8, [0x61])]"
  "sorted_reverse [(7 / 8, [0x62]), (7 / 8, [0x61])] = [(7 / 8, [0x62]), (7 / 8, [0x61])]"
  by (simp_all add: sorted_reverse_def stable_sort_def tuple_lt_def)

text \<open>
  Claim C10. The normalizer of \<open>app.py\<close> joins the texts of the surviving lines in the
  order of \<open>sorted(zip(confidences, texts), reverse=True)\<close>: no pair is less than a later
  one in the order on tuples, so two lines of equal confidence come with the greater
  text, by code points, first, whatever their order in the OCR result. The sorted list is
  a permutation of the pairs and depends on nothing but which pairs there are.
\<close>

theorem app_normalizer_tie_break:
  "app_extract_text_from_paddle_result (Some lines # rest) =
     py_join [0x20]
       (map snd (sorted_reverse (map (\<lambda>(t, c). (c, t)) (survivors float_0_3 lines)))) \<and>
   mset (sorted_reverse xs) = mset xs \<and>
   sorted_wrt (\<lambda>a b. \<not> tuple_lt a b) (sorted_reverse xs) \<and>
   sorted_wrt (\<lambda>a b. fst a = fst b \<longrightarrow> \<not> str_lt (snd a) (snd b)) (sorted_reverse xs) \<and>
   (mset xs = mset ys \<longrightarrow> sorted_reverse xs = sorted_reverse ys) \<and>
   app_extract_text_from_paddle_result [Some tied_lines] = [0x62, 0x20, 0x61]"
proof (intro conjI impI)
  show "app_extract_text_from_paddle_result (Some lines # rest) =
     py_join [0x20]
       (map snd (sorted_reverse (map (\<lambda>(t, c). (c, t)) (survivors float_0_3 lines))))"
    by (rule app_extract_eq)
  show "mset (sorted_reverse xs) = mset xs" by (rule sorted_reverse_mset)
  show s: "sorted_wrt (\<lambda>a b. \<not> tuple_lt a b) (sorted_reverse xs)"
    by (rule sorted_reverse_sorted)
  show "sorted_wrt (\<lambda>a b. fst a = fst b \<longrightarrow> \<not> str_lt (snd a) (snd b)) (sorted_reverse xs)"
    using s by (rule sorted_wrt_mono_rel[rotated]) (auto simp: tuple_lt_def)
  show "sorted_reverse xs = sorted_reverse ys" if "mset xs = mset ys"
    using that by (rule sorted_reverse_perm)
  show "app_extract_text_from_paddle_result [Some tied_lines] = [0x62, 0x20, 0x61]"
    by (rule tied_lines_app)
qed

theorem app_normalizer_tie_break_witness:
  "mset [(7 / 8 :: rat, [0x61 :: nat]), (7 / 8, [0x62])] = mset [(7 / 8, [0x62]), (7 / 8, [0x61])] \<and>
   sorted_reverse [(7 / 8, [0x61]), (7 / 8, [0x62])] =
     sorted_reverse [(7 / 8, [0x62]), (7 / 8, [0x61])] \<and>
   sorted_reverse [(7 / 8, [0x61]), (7 / 8, [0x62])] = [(7 / 8, [0x62]), (7 / 8, [0x61])] \<and>
   sorted_wrt (\<lambda>a b. fst a = fst b \<longrightarrow> \<not> str_lt (snd a) (snd b))
     [(7 / 8 :: rat, [0x62]), (7 / 8, [0x61])] \<and>
   \<not> str_lt [0x62] [0x61]"
proof -
  have m: "mset [(7 / 8 :: rat, [0x61 :: nat]), (7 / 8, [0x62])] =
      mset [(7 / 8, [0x62]), (7 / 8, [0x61])]"
    by (simp add: add_mset_commute)
  note t = app_normalizer_tie_break[of _ _ "[(7 / 8, [0x61]), (7 / 8, [0x62])]"
      "[(7 / 8, [0x62]), (7 / 8, [0x61])]"]
  from t m have "sorted_reverse [(7 / 8, [0x61]), (7 / 8, [0x62])] =
     sorted_reverse [(7 / 8, [0x62]), (7 / 8, [0x61])]" by blast
  moreover from t have "sorted_wrt (\<lambda>a b. fst a = fst b \<longrightarrow> \<not> str_lt (snd a) (snd b))
     (sorted_reverse [(7 / 8, [0x61]), (7 / 8, [0x62])])" by blast
  ultimately show ?thesis using m by (simp add: tied_sorted)
qed

end
